theory Spec2Isabelle
  imports Main
begin

section \<open>Cross-mesh resharding: shallow embedding\<close>

text \<open>
  The development follows \<^verbatim>\<open>alpa/pipeline_parallel/cross_mesh_resharding.py\<close>.
  Python exceptions are values of the type \<open>error\<close>; a function that can raise returns
  \<open>error + 'a\<close> with \<open>Inl\<close> for the exception.
\<close>

datatype error =
    AssertionError
  | IndexError
  | KeyError
  | ZeroDivisionError
  | RuntimeError
  | TypeError
  | ValueError
  | AttributeError

subsection \<open>The task id counter\<close>

text \<open>
  \<^verbatim>\<open>
  resharding_task_counter = 0

  def next_resharding_task_uuid():
      global resharding_task_counter
      resharding_task_counter = (resharding_task_counter + 1) % (1 << 60)
      return resharding_task_counter
  \<close>
  The global counter is passed in and handed back: the result is the pair of the returned
  id and the new value of the counter.
\<close>

definition resharding_task_counter_init :: int where
  "resharding_task_counter_init = 0"

definition next_resharding_task_uuid :: "int \<Rightarrow> int \<times> int" where
  "next_resharding_task_uuid resharding_task_counter =
     (let resharding_task_counter' = (resharding_task_counter + 1) mod (2 ^ 60)
      in (resharding_task_counter', resharding_task_counter'))"

text \<open>\<open>uuid_calls n c\<close>: the ids returned by \<open>n\<close> consecutive calls that start with the
  counter at \<open>c\<close>, and the counter afterwards.\<close>

primrec uuid_calls :: "nat \<Rightarrow> int \<Rightarrow> int list \<times> int" where
  "uuid_calls 0 c = ([], c)"
| "uuid_calls (Suc n) c =
     (case next_resharding_task_uuid c of
        (r, c') \<Rightarrow> (case uuid_calls n c' of (rs, c'') \<Rightarrow> (r # rs, c'')))"

subsection \<open>Data model\<close>

text \<open>
  A Python \<^verbatim>\<open>slice(start, stop, None)\<close>; either bound may be \<^verbatim>\<open>None\<close>.
\<close>

datatype pyslice = Slice (start: "int option") (stop: "int option")

text \<open>
  The sharding specification of \<^verbatim>\<open>jax.interpreters.pxla\<close>: one entry per tensor axis
  in \<open>sharding\<close>, one entry per mesh axis in \<open>mesh_mapping\<close>. The axis of a
  \<open>ShardedAxis\<close> is an index into the chunked axes and is never negative.
\<close>

datatype AvalDimSharding = NoSharding | Chunked (chunks: "int list") | Unstacked int

datatype MeshDimAssignment = ShardedAxis (axis: nat) | Replicated (replicas: int)

record ShardingSpec =
  sharding :: "AvalDimSharding list"
  mesh_mapping :: "MeshDimAssignment list"

record ShapedArray =
  shape :: "int list"
  dtype :: string

text \<open>A remote worker (a Ray actor handle) is identified by a number.\<close>

datatype worker = Worker nat

text \<open>
  The physical mesh (\<^verbatim>\<open>alpa.device_mesh\<close>, not part of the sources at hand): the
  attributes that the resharding code reads are the fields.
\<close>

record Mesh =
  host_ips :: "string list"
  workers :: "worker list"
  device_strs :: "string list"
  num_devices_per_host :: nat
  num_hosts :: nat
  num_devices :: nat

text \<open>
  A tile: its index ranges in the whole array, its shape, and the devices that hold a
  replica of it. A tile slice is a tile together with the offset (a slice per axis) of the
  part that is transferred.
\<close>

record Tile =
  indices :: "pyslice list"
  tile_shape :: "int list"
  replica_device_strs :: "string list"

record TileSlice = Tile +
  offset :: "pyslice list"

text \<open>
  The virtual distributed array (\<^verbatim>\<open>alpa.pipeline_parallel.resharding_tensor\<close>).
  \<open>vda_tile_shape\<close> is its property \<^verbatim>\<open>tile_shape\<close> (the number of tiles along each
  axis), \<open>vda_tiles\<close> its property \<^verbatim>\<open>tiles\<close> (a numpy array of that shape, kept
  flattened in row-major order), \<open>vda_indices\<close> its property \<^verbatim>\<open>indices\<close>.
\<close>

record VirtualDistributedArray =
  device_mesh :: Mesh
  aval :: ShapedArray
  sharding_spec :: ShardingSpec
  vda_tile_shape :: "int list"
  vda_tiles :: "Tile list"
  vda_indices :: "pyslice list list"

definition tensor_shape :: "VirtualDistributedArray \<Rightarrow> int list" where
  "tensor_shape a = shape (aval a)"

definition tensor_rank :: "VirtualDistributedArray \<Rightarrow> nat" where
  "tensor_rank a = length (tensor_shape a)"

text \<open>
  \<^verbatim>\<open>
  class ReshardingStrategy:
      def __init__(self, per_spec_plans, is_local_allgather):
          self.per_spec_plans = per_spec_plans
          self.is_local_allgather = is_local_allgather
  \<close>
  A plan is a two-dimensional array of device strings, one row per replica of the
  destination tile and one column per source tile slice.
\<close>

record ReshardingStrategy =
  per_spec_plans :: "string list list list"
  is_local_allgather :: bool

text \<open>
  \<^verbatim>\<open>
  class ReshardingTaskSpec:
      def __init__(self, src_array, dst_array, allgather_slice=None):
          self.src = src_array
          self.dst = dst_array
          self._dst_tile_to_src_tiles_map = None
          self._strategy = None
          self.allgather_slice = allgather_slice
  \<close>
\<close>

record ReshardingTaskSpec =
  src :: VirtualDistributedArray
  dst :: VirtualDistributedArray
  dst_tile_to_src_tiles_map_cache :: "(Tile \<times> TileSlice list \<times> pyslice list list) list option"
  strategy_field :: "ReshardingStrategy option"
  allgather_slice :: "(nat \<times> nat \<times> int) option"

definition ReshardingTaskSpec_init ::
  "VirtualDistributedArray \<Rightarrow> VirtualDistributedArray \<Rightarrow> (nat \<times> nat \<times> int) option
     \<Rightarrow> ReshardingTaskSpec" where
  "ReshardingTaskSpec_init src_array dst_array allgather_slice' =
     \<lparr>src = src_array, dst = dst_array, dst_tile_to_src_tiles_map_cache = None,
      strategy_field = None, allgather_slice = allgather_slice'\<rparr>"

subsection \<open>The strategy of a task spec\<close>

text \<open>
  \<^verbatim>\<open>
  def set_resharding_strategy(self, strategy):
      self._strategy = strategy

  @property
  def strategy(self):
      if not self._strategy:
          raise RuntimeError(
              "Generate and set strategy in the cross-mesh communicator first.")
      return self._strategy
  \<close>
  \<open>strategy_field\<close> is the attribute \<^verbatim>\<open>_strategy\<close>. The class ReshardingStrategy
  defines neither \<^verbatim>\<open>__bool__\<close> nor \<^verbatim>\<open>__len__\<close>, so an instance of it is true
  and \<^verbatim>\<open>None\<close> is false. Reading the property gives the result and the spec as it is
  after the read.
\<close>

definition set_resharding_strategy :: "ReshardingTaskSpec \<Rightarrow> ReshardingStrategy \<Rightarrow> ReshardingTaskSpec" where
  "set_resharding_strategy self strategy' = self\<lparr>strategy_field := Some strategy'\<rparr>"

definition truthy_strategy :: "ReshardingStrategy option \<Rightarrow> bool" where
  "truthy_strategy v = (case v of None \<Rightarrow> False | Some _ \<Rightarrow> True)"

definition strategy :: "ReshardingTaskSpec \<Rightarrow> (error + ReshardingStrategy) \<times> ReshardingTaskSpec" where
  "strategy self =
     (if \<not> truthy_strategy (strategy_field self) then (Inl RuntimeError, self)
      else (case strategy_field self of
              Some s \<Rightarrow> (Inr s, self)
            | None \<Rightarrow> (Inl RuntimeError, self)))"

text \<open>\<open>strategy_reads n self\<close>: the results of \<open>n\<close> reads of the property in a row, and
  the spec afterwards.\<close>

primrec strategy_reads :: "nat \<Rightarrow> ReshardingTaskSpec \<Rightarrow> (error + ReshardingStrategy) list \<times> ReshardingTaskSpec" where
  "strategy_reads 0 self = ([], self)"
| "strategy_reads (Suc n) self =
     (case strategy self of
        (r, self') \<Rightarrow> (case strategy_reads n self' of (rs, self'') \<Rightarrow> (r # rs, self'')))"


subsection \<open>Python containers and arithmetic\<close>

text \<open>Sequencing of computations that may raise: the first exception is the result.\<close>

definition ebind :: "error + 'a \<Rightarrow> ('a \<Rightarrow> error + 'b) \<Rightarrow> error + 'b" where
  "ebind m f = (case m of Inl e \<Rightarrow> Inl e | Inr x \<Rightarrow> f x)"

definition py_assert :: "bool \<Rightarrow> error + unit" where
  "py_assert b = (if b then Inr () else Inl AssertionError)"

text \<open>\<^verbatim>\<open>xs[i]\<close> for an index that is not negative.\<close>

definition list_get :: "'a list \<Rightarrow> nat \<Rightarrow> error + 'a" where
  "list_get xs i = (if i < length xs then Inr (xs ! i) else Inl IndexError)"

text \<open>\<^verbatim>\<open>a % b\<close> and \<^verbatim>\<open>a // b\<close> on integers: both round towards minus infinity, as
  \<open>mod\<close> and \<open>div\<close> on \<open>int\<close> do, and both raise on a zero divisor.\<close>

definition py_mod :: "int \<Rightarrow> int \<Rightarrow> error + int" where
  "py_mod a b = (if b = 0 then Inl ZeroDivisionError else Inr (a mod b))"

definition py_floordiv :: "int \<Rightarrow> int \<Rightarrow> error + int" where
  "py_floordiv a b = (if b = 0 then Inl ZeroDivisionError else Inr (a div b))"

text \<open>
  A \<^verbatim>\<open>dict\<close> is a list of key-value pairs in insertion order with distinct keys:
  \<open>dict_set\<close> is \<^verbatim>\<open>d[k] = v\<close> (an existing key keeps its place), \<open>dict_get\<close> is
  \<^verbatim>\<open>d[k]\<close>, \<open>dict_contains\<close> is \<^verbatim>\<open>k in d\<close>.
\<close>

type_synonym ('k, 'v) dict = "('k \<times> 'v) list"

fun dict_set :: "('k, 'v) dict \<Rightarrow> 'k \<Rightarrow> 'v \<Rightarrow> ('k, 'v) dict" where
  "dict_set [] k v = [(k, v)]"
| "dict_set ((k', v') # d) k v =
     (if k' = k then (k, v) # d else (k', v') # dict_set d k v)"

definition dict_get :: "('k, 'v) dict \<Rightarrow> 'k \<Rightarrow> error + 'v" where
  "dict_get d k = (case map_of d k of None \<Rightarrow> Inl KeyError | Some v \<Rightarrow> Inr v)"

definition dict_contains :: "('k, 'v) dict \<Rightarrow> 'k \<Rightarrow> bool" where
  "dict_contains d k = (map_of d k \<noteq> None)"

definition dict_keys :: "('k, 'v) dict \<Rightarrow> 'k list" where
  "dict_keys d = map fst d"

definition dict_values :: "('k, 'v) dict \<Rightarrow> 'v list" where
  "dict_values d = map snd d"

subsection \<open>Rewriting the destination sharding for a local allgather\<close>

record GlobalConfig =
  use_scatter_gather :: bool
  eagerly_create_communicators :: bool

text \<open>A variable of a stage: \<open>var_id\<close> stands for the identity of the object,
  \<open>var_repr\<close> for \<^verbatim>\<open>repr(var)\<close>.\<close>

record Var =
  var_id :: nat
  var_repr :: string
  var_aval :: ShapedArray

text \<open>
  \<^verbatim>\<open>
  def dim_spec_chunk_value(spec):
      return spec.chunks[0] if isinstance(spec, pxla.Chunked) else 1
  \<close>
\<close>

fun dim_spec_chunk_value :: "AvalDimSharding \<Rightarrow> error + int" where
  "dim_spec_chunk_value (Chunked cs) = list_get cs 0"
| "dim_spec_chunk_value _ = Inr 1"

fun isinstance_Chunked :: "AvalDimSharding \<Rightarrow> bool" where
  "isinstance_Chunked (Chunked _) = True"
| "isinstance_Chunked _ = False"

text \<open>
  \<^verbatim>\<open>
  chunk_dim_to_tensor_dim = []
  for dim, dim_spec in enumerate(dst_sharding_spec.sharding):
      tot_sharding *= dim_spec_chunk_value(dim_spec)
      if isinstance(dim_spec, pxla.Chunked):
          chunk_dim_to_tensor_dim.append(dim)
  \<close>
\<close>

fun scan_sharding ::
  "nat \<Rightarrow> AvalDimSharding list \<Rightarrow> int \<Rightarrow> nat list \<Rightarrow> error + (int \<times> nat list)" where
  "scan_sharding dim [] tot_sharding chunk_dim_to_tensor_dim =
     Inr (tot_sharding, chunk_dim_to_tensor_dim)"
| "scan_sharding dim (dim_spec # rest) tot_sharding chunk_dim_to_tensor_dim =
     (case dim_spec_chunk_value dim_spec of
        Inl e \<Rightarrow> Inl e
      | Inr v \<Rightarrow>
          scan_sharding (Suc dim) rest (tot_sharding * v)
            (if isinstance_Chunked dim_spec then chunk_dim_to_tensor_dim @ [dim]
             else chunk_dim_to_tensor_dim))"

text \<open>
  \<^verbatim>\<open>
  shard_axes = {}  # tensor axis->mesh axis
  for dim_idx, mesh_dim in enumerate(dst_sharding_spec.mesh_mapping):
      if isinstance(mesh_dim, pxla.ShardedAxis):
          shard_axes[chunk_dim_to_tensor_dim[mesh_dim.axis]] = dim_idx
  \<close>
\<close>

fun scan_mesh_mapping ::
  "nat list \<Rightarrow> nat \<Rightarrow> MeshDimAssignment list \<Rightarrow> (nat, nat) dict \<Rightarrow> error + (nat, nat) dict" where
  "scan_mesh_mapping chunk_dim_to_tensor_dim dim_idx [] shard_axes = Inr shard_axes"
| "scan_mesh_mapping chunk_dim_to_tensor_dim dim_idx (ShardedAxis a # rest) shard_axes =
     (case list_get chunk_dim_to_tensor_dim a of
        Inl e \<Rightarrow> Inl e
      | Inr tensor_dim \<Rightarrow>
          scan_mesh_mapping chunk_dim_to_tensor_dim (Suc dim_idx) rest
            (dict_set shard_axes tensor_dim dim_idx))"
| "scan_mesh_mapping chunk_dim_to_tensor_dim dim_idx (Replicated _ # rest) shard_axes =
     scan_mesh_mapping chunk_dim_to_tensor_dim (Suc dim_idx) rest shard_axes"

text \<open>
  The condition of the cross-node test:
  \<^verbatim>\<open>
  first_mesh_dim = dst_sharding_spec.mesh_mapping[0]
  if (isinstance(first_mesh_dim, pxla.Replicated) or
      (dim_spec_chunk_value(dst_sharding_spec.sharding[
          chunk_dim_to_tensor_dim[first_mesh_dim.axis]]) < dst_mesh.num_hosts)):
  \<close>
\<close>

fun first_dim_not_across_hosts ::
  "ShardingSpec \<Rightarrow> nat list \<Rightarrow> Mesh \<Rightarrow> MeshDimAssignment \<Rightarrow> error + bool" where
  "first_dim_not_across_hosts dst_sharding_spec chunk_dim_to_tensor_dim dst_mesh (Replicated _) =
     Inr True"
| "first_dim_not_across_hosts dst_sharding_spec chunk_dim_to_tensor_dim dst_mesh (ShardedAxis a) =
     ebind (list_get chunk_dim_to_tensor_dim a) (\<lambda>tensor_dim.
     ebind (list_get (sharding dst_sharding_spec) tensor_dim) (\<lambda>dim_spec.
     ebind (dim_spec_chunk_value dim_spec) (\<lambda>v.
     Inr (v < int (num_hosts dst_mesh)))))"

text \<open>
  The body of the branch that rewrites axis \<open>dim\<close>:
  \<^verbatim>\<open>
  new_sharding = list(cur_dst_sharding)
  new_sharding[dim] = pxla.Chunked([new_chunked_value])
  if dim not in shard_axes:
      if 0 in set(shard_axes.values()):
          shard_axes[dim] = 1
      else:
          shard_axes[dim] = 0
  squeezed_shard_axes = []
  for k in sorted(shard_axes.keys()):
      squeezed_shard_axes.append(shard_axes[k])
  shard_axes_reversed = {v: k for k, v in enumerate(squeezed_shard_axes)}
  new_mapping = [
      pxla.ShardedAxis(shard_axes_reversed[i])
      if i in shard_axes_reversed else pxla.Replicated(1)
      for i in range(2)
  ]
  assert len(new_mapping) < 3, "Only support 1D and 2D mesh"
  dst_sharding_spec = pxla.ShardingSpec(new_sharding, new_mapping)
  extra_slice = (dim, shard_axes[dim], extra_sharding)
  break
  \<close>
\<close>

definition rewrite_dim ::
  "AvalDimSharding list \<Rightarrow> (nat, nat) dict \<Rightarrow> nat \<Rightarrow> int \<Rightarrow> int
     \<Rightarrow> error + (ShardingSpec \<times> (nat \<times> nat \<times> int) option)" where
  "rewrite_dim cur_dst_sharding shard_axes0 dim new_chunked_value extra_sharding =
     (let new_sharding = cur_dst_sharding[dim := Chunked [new_chunked_value]];
          shard_axes =
            (if \<not> dict_contains shard_axes0 dim then
               (if 0 \<in> set (dict_values shard_axes0) then dict_set shard_axes0 dim 1
                else dict_set shard_axes0 dim 0)
             else shard_axes0);
          squeezed_shard_axes = map snd (sort_key fst shard_axes);
          shard_axes_reversed =
            foldl (\<lambda>d (k, v). dict_set d v k) [] (enumerate 0 squeezed_shard_axes);
          new_mapping =
            map (\<lambda>i. case map_of shard_axes_reversed i of
                        Some k \<Rightarrow> ShardedAxis k
                      | None \<Rightarrow> Replicated 1) [0..<2]
      in ebind (py_assert (length new_mapping < 3)) (\<lambda>_.
         ebind (dict_get shard_axes dim) (\<lambda>mesh_axis.
         Inr (\<lparr>sharding = new_sharding, mesh_mapping = new_mapping\<rparr>,
              Some (dim, mesh_axis, extra_sharding)))))"

text \<open>
  The loop over the tensor axes:
  \<^verbatim>\<open>
  dim = 0
  while dim < len(cur_dst_sharding):
      dim_spec = dst_sharding_spec.sharding[dim]
      dim_chunked_value = dim_spec_chunk_value(dim_spec)
      new_chunked_value = (extra_sharding * dim_chunked_value)
      if var.aval.shape[dim] % new_chunked_value == 0:
          if dim in shard_axes and shard_axes[dim] != 0:
              dim += 1
              continue
          ...
          break
      dim += 1
  \<close>
  When no axis is rewritten the loop ends with the spec it started with and no slice.
\<close>

function rewrite_loop ::
  "ShardingSpec \<Rightarrow> Var \<Rightarrow> int \<Rightarrow> (nat, nat) dict \<Rightarrow> nat
     \<Rightarrow> error + (ShardingSpec \<times> (nat \<times> nat \<times> int) option)" where
  "rewrite_loop dst_sharding_spec var extra_sharding shard_axes dim =
     (if dim < length (sharding dst_sharding_spec) then
        (case dim_spec_chunk_value (sharding dst_sharding_spec ! dim) of
           Inl e \<Rightarrow> Inl e
         | Inr dim_chunked_value \<Rightarrow>
             (case list_get (shape (var_aval var)) dim of
                Inl e \<Rightarrow> Inl e
              | Inr d \<Rightarrow>
                  (case py_mod d (extra_sharding * dim_chunked_value) of
                     Inl e \<Rightarrow> Inl e
                   | Inr r \<Rightarrow>
                       if r = 0 then
                         (if dict_contains shard_axes dim \<and> map_of shard_axes dim \<noteq> Some 0
                          then rewrite_loop dst_sharding_spec var extra_sharding shard_axes (Suc dim)
                          else rewrite_dim (sharding dst_sharding_spec) shard_axes dim
                                 (extra_sharding * dim_chunked_value) extra_sharding)
                       else rewrite_loop dst_sharding_spec var extra_sharding shard_axes (Suc dim))))
      else Inr (dst_sharding_spec, None))"
  by pat_completeness auto
termination
  by (relation "measure (\<lambda>(s, v, e, a, dim). length (sharding s) - dim)") auto

text \<open>
  \<^verbatim>\<open>
  @staticmethod
  def _rewrite_allgather_specs(dst_sharding_spec, dst_mesh, var):
      if not global_config.use_scatter_gather:
          return dst_sharding_spec, None
      tot_sharding = 1
      extra_slice = None
      ...
      if tot_sharding == dst_mesh.num_devices:
          return dst_sharding_spec, extra_slice
      assert dst_mesh.num_devices % tot_sharding == 0
      extra_sharding = dst_mesh.num_devices // tot_sharding
      ...
      if (isinstance(first_mesh_dim, pxla.Replicated) or ...):
          if dst_mesh.num_hosts > 1:
              return dst_sharding_spec, None
      assert len(shard_axes) < 2, "Only support 1D and 2D Mesh"
      ...
      return dst_sharding_spec, extra_slice
  \<close>
  The global configuration is a parameter. The keys of \<open>shard_axes\<close> are distinct, so
  reading its values in the order of the sorted keys is reading the second components
  of its pairs sorted by the first.
\<close>

definition rewrite_allgather_specs ::
  "GlobalConfig \<Rightarrow> ShardingSpec \<Rightarrow> Mesh \<Rightarrow> Var
     \<Rightarrow> error + (ShardingSpec \<times> (nat \<times> nat \<times> int) option)" where
  "rewrite_allgather_specs global_config dst_sharding_spec dst_mesh var =
     (if \<not> use_scatter_gather global_config then Inr (dst_sharding_spec, None)
      else
        ebind (scan_sharding 0 (sharding dst_sharding_spec) 1 []) (\<lambda>(tot_sharding, chunk_dim_to_tensor_dim).
        if tot_sharding = int (num_devices dst_mesh) then Inr (dst_sharding_spec, None)
        else
          ebind (py_mod (int (num_devices dst_mesh)) tot_sharding) (\<lambda>r.
          ebind (py_assert (r = 0)) (\<lambda>_.
          ebind (py_floordiv (int (num_devices dst_mesh)) tot_sharding) (\<lambda>extra_sharding.
          ebind (scan_mesh_mapping chunk_dim_to_tensor_dim 0 (mesh_mapping dst_sharding_spec) []) (\<lambda>shard_axes.
          ebind (list_get (mesh_mapping dst_sharding_spec) 0) (\<lambda>first_mesh_dim.
          ebind (first_dim_not_across_hosts dst_sharding_spec chunk_dim_to_tensor_dim dst_mesh first_mesh_dim) (\<lambda>c.
          if c \<and> num_hosts dst_mesh > 1 then Inr (dst_sharding_spec, None)
          else
            ebind (py_assert (length shard_axes < 2)) (\<lambda>_.
            rewrite_loop dst_sharding_spec var extra_sharding shard_axes 0)))))))))"

subsection \<open>Collective group and compiled tasks\<close>

text \<open>
  The named tuples of \<^verbatim>\<open>alpa.device_mesh\<close> that the task compiler fills in.
  \<open>spec_offset\<close> is the first component of a ReshardingTileSpec: the offset on the
  sending side, the indices in the destination tile on the receiving side.
\<close>

record ReshardingTileSpec =
  spec_offset :: "pyslice list"
  rank :: nat
  gpu_idx :: nat

record ReshardingRecvSpec =
  device_id :: nat
  recv_shape :: "int list"
  recv_dtype :: string
  tile_specs :: "ReshardingTileSpec list"

record ReshardingAllGatherSpec =
  device_ids :: "nat list"
  tensor_slices :: "pyslice list list"

record CollectiveGroup =
  group_device_strs :: "string list"
  group_src_mesh :: Mesh
  group_dst_mesh :: Mesh
  group_name :: string
  device_str_to_rank_map :: "(string, nat \<times> nat) dict"
  device_str_to_mesh_worker_map :: "(string, worker) dict"
  device_str_to_host_id_map :: "(string, nat) dict"
  device_str_to_device_id_map :: "(string, nat) dict"
  worker_to_rank_map :: "(worker option, nat) dict"
  mesh_workers :: "worker option list"

record SymbolicReshardingTask =
  task_spec :: ReshardingTaskSpec
  collective_group :: CollectiveGroup
  src_mesh :: Mesh
  dst_mesh :: Mesh
  sender_tasks :: "(worker, ReshardingTileSpec list) dict"
  receiver_tasks :: "(worker, ReshardingRecvSpec list) dict"
  allgather_tasks :: "(worker, (int, ReshardingAllGatherSpec) dict) dict"
  sender_uuid_plan :: "string list"
  receiver_uuid_plan :: "string list"

definition dst_sharding_spec :: "ReshardingTaskSpec \<Rightarrow> ShardingSpec" where
  "dst_sharding_spec self = sharding_spec (dst self)"

definition src_sharding_spec :: "ReshardingTaskSpec \<Rightarrow> ShardingSpec" where
  "src_sharding_spec self = sharding_spec (src self)"

definition task_aval :: "ReshardingTaskSpec \<Rightarrow> ShapedArray" where
  "task_aval self = aval (src self)"

definition dst_indices :: "ReshardingTaskSpec \<Rightarrow> pyslice list list" where
  "dst_indices self = vda_indices (dst self)"

subsection \<open>The allgather group of a receiver\<close>

text \<open>
  \<^verbatim>\<open>
  chunked_axes = [
      i for i, s in enumerate(dst_spec.sharding)
      if isinstance(s, pxla.Chunked)
  ]
  dst_mesh_shape = [
      (dst_spec.sharding[chunked_axes[mesh_map.axis]].chunks[0]
       if isinstance(mesh_map, pxla.ShardedAxis) else 1)
      for mesh_map in dst_spec.mesh_mapping
  ]
  \<close>
\<close>

definition chunked_axes_of :: "ShardingSpec \<Rightarrow> nat list" where
  "chunked_axes_of dst_spec =
     filter (\<lambda>i. isinstance_Chunked (sharding dst_spec ! i)) [0..<length (sharding dst_spec)]"

fun mesh_shape_of :: "ShardingSpec \<Rightarrow> nat list \<Rightarrow> MeshDimAssignment list \<Rightarrow> error + int list" where
  "mesh_shape_of dst_spec chunked_axes [] = Inr []"
| "mesh_shape_of dst_spec chunked_axes (mesh_map # rest) =
     (case (case mesh_map of
              ShardedAxis a \<Rightarrow>
                ebind (list_get chunked_axes a) (\<lambda>i.
                ebind (list_get (sharding dst_spec) i) (\<lambda>s.
                case s of Chunked cs \<Rightarrow> list_get cs 0 | _ \<Rightarrow> Inl AttributeError))
            | Replicated _ \<Rightarrow> Inr 1) of
        Inl e \<Rightarrow> Inl e
      | Inr n \<Rightarrow>
          (case mesh_shape_of dst_spec chunked_axes rest of
             Inl e \<Rightarrow> Inl e
           | Inr ns \<Rightarrow> Inr (n # ns)))"

text \<open>
  \<^verbatim>\<open>
  def _allgather_receiver_step_and_offset(self, receiver):
      _, mesh_axis, extra_sharding = self.task_spec.allgather_slice
      # the dst mesh of col group may not be dst mesh of resharding task
      host_idx, device_idx = self.collective_group.device_str_to_rank_map[
          receiver]
      if host_idx >= self.collective_group.src_mesh.num_hosts:
          host_idx = host_idx - self.collective_group.src_mesh.num_hosts
      flatten_idx = host_idx * self.dst_mesh.num_devices_per_host + device_idx
      # Reconstruct logical mesh info
      dst_spec = self.task_spec.dst_sharding_spec
      ...
      assert len(dst_mesh_shape) < 3, "Only support 1D and 2D mesh"
      # rewrite indices
      if mesh_axis == 0:
          step = dst_mesh_shape[1]
          offset = (flatten_idx // dst_mesh_shape[1]) % extra_sharding
          group_idx = ((flatten_idx // dst_mesh_shape[1]) // extra_sharding *
                       dst_mesh_shape[1]) + (flatten_idx % dst_mesh_shape[1])
      else:
          assert mesh_axis == 1
          step = 1
          offset = (flatten_idx % dst_mesh_shape[1]) % extra_sharding
          group_idx = flatten_idx // extra_sharding
      return step, offset, group_idx, dst_mesh_shape
  \<close>
  Unpacking \<^verbatim>\<open>None\<close> raises TypeError.
\<close>

definition allgather_receiver_step_and_offset ::
  "SymbolicReshardingTask \<Rightarrow> string \<Rightarrow> error + (int \<times> int \<times> int \<times> int list)" where
  "allgather_receiver_step_and_offset self receiver =
     (case allgather_slice (task_spec self) of
        None \<Rightarrow> Inl TypeError
      | Some (_, mesh_axis, extra_sharding) \<Rightarrow>
          ebind (dict_get (device_str_to_rank_map (collective_group self)) receiver) (\<lambda>(host_idx0, device_idx).
          let host_idx =
                (if host_idx0 \<ge> num_hosts (group_src_mesh (collective_group self))
                 then host_idx0 - num_hosts (group_src_mesh (collective_group self))
                 else host_idx0);
              flatten_idx = int (host_idx * num_devices_per_host (dst_mesh self) + device_idx);
              dst_spec = dst_sharding_spec (task_spec self)
          in
          ebind (mesh_shape_of dst_spec (chunked_axes_of dst_spec) (mesh_mapping dst_spec)) (\<lambda>dst_mesh_shape.
          ebind (py_assert (length dst_mesh_shape < 3)) (\<lambda>_.
          if mesh_axis = 0 then
            ebind (list_get dst_mesh_shape 1) (\<lambda>step.
            ebind (py_floordiv flatten_idx step) (\<lambda>q.
            ebind (py_mod q extra_sharding) (\<lambda>offset'.
            ebind (py_floordiv q extra_sharding) (\<lambda>g.
            ebind (py_mod flatten_idx step) (\<lambda>m.
            Inr (step, offset', g * step + m, dst_mesh_shape))))))
          else
            ebind (py_assert (mesh_axis = 1)) (\<lambda>_.
            ebind (list_get dst_mesh_shape 1) (\<lambda>d1.
            ebind (py_mod flatten_idx d1) (\<lambda>m.
            ebind (py_mod m extra_sharding) (\<lambda>offset'.
            ebind (py_floordiv flatten_idx extra_sharding) (\<lambda>group_idx.
            Inr (1, offset', group_idx, dst_mesh_shape))))))))))"

subsection \<open>Example inputs\<close>

text \<open>A configuration with the allgather rewrite switched off, and one with it on.\<close>

definition config_no_scatter_gather :: GlobalConfig where
  "config_no_scatter_gather = \<lparr>use_scatter_gather = False, eagerly_create_communicators = False\<rparr>"

definition config_scatter_gather :: GlobalConfig where
  "config_scatter_gather = \<lparr>use_scatter_gather = True, eagerly_create_communicators = False\<rparr>"

text \<open>A one-host mesh of eight devices, and a vector of eight elements chunked in two on
  a three-dimensional mesh of shape 2 x 2 x 2.\<close>

definition mesh_1x8 :: Mesh where
  "mesh_1x8 =
     \<lparr>host_ips = [''b''], workers = [Worker 0],
      device_strs = [''b:0'', ''b:1'', ''b:2'', ''b:3'',
                     ''b:4'', ''b:5'', ''b:6'', ''b:7''],
      num_devices_per_host = 8, num_hosts = 1, num_devices = 8\<rparr>"

definition spec_mesh_3d :: ShardingSpec where
  "spec_mesh_3d =
     \<lparr>sharding = [Chunked [2]],
      mesh_mapping = [ShardedAxis 0, Replicated 2, Replicated 2]\<rparr>"

definition var_vec8 :: Var where
  "var_vec8 = \<lparr>var_id = 0, var_repr = ''a'', var_aval = \<lparr>shape = [8], dtype = ''float32''\<rparr>\<rparr>"

text \<open>An 8 x 8 matrix chunked 2 x 2 on a two-dimensional mesh, though the mesh has eight
  devices.\<close>

definition spec_mesh_2d_sharded :: ShardingSpec where
  "spec_mesh_2d_sharded =
     \<lparr>sharding = [Chunked [2], Chunked [2]],
      mesh_mapping = [ShardedAxis 0, ShardedAxis 1]\<rparr>"

definition var_mat8 :: Var where
  "var_mat8 = \<lparr>var_id = 1, var_repr = ''b'', var_aval = \<lparr>shape = [8, 8], dtype = ''float32''\<rparr>\<rparr>"

text \<open>The vector of eight elements after the rewrite: chunked in eight on the first axis
  of a two-dimensional mesh, to be completed by an allgather over groups of four.\<close>

definition spec_mesh_2d_rewritten :: ShardingSpec where
  "spec_mesh_2d_rewritten =
     \<lparr>sharding = [Chunked [8]], mesh_mapping = [ShardedAxis 0, Replicated 1]\<rparr>"

text \<open>The vector of eight elements chunked in eight on a one-dimensional mesh.\<close>

definition spec_mesh_1d :: ShardingSpec where
  "spec_mesh_1d = \<lparr>sharding = [Chunked [8]], mesh_mapping = [ShardedAxis 0]\<rparr>"

definition mesh_1x1 :: Mesh where
  "mesh_1x1 =
     \<lparr>host_ips = [''a''], workers = [Worker 7], device_strs = [''a:0''],
      num_devices_per_host = 1, num_hosts = 1, num_devices = 1\<rparr>"

definition array_on :: "Mesh \<Rightarrow> ShapedArray \<Rightarrow> ShardingSpec \<Rightarrow> VirtualDistributedArray" where
  "array_on m a s =
     \<lparr>device_mesh = m, aval = a, sharding_spec = s, vda_tile_shape = [], vda_tiles = [],
      vda_indices = []\<rparr>"

definition group_1x1_1x8 :: CollectiveGroup where
  "group_1x1_1x8 =
     \<lparr>group_device_strs = [''a:0'', ''b:0''],
      group_src_mesh = mesh_1x1, group_dst_mesh = mesh_1x8,
      group_name = ''a:0,b:0'',
      device_str_to_rank_map = [(''a:0'', (0, 0)), (''b:0'', (1, 0))],
      device_str_to_mesh_worker_map = [(''a:0'', Worker 7), (''b:0'', Worker 0)],
      device_str_to_host_id_map = [(''a:0'', 0), (''b:0'', 0)],
      device_str_to_device_id_map = [(''a:0'', 0), (''b:0'', 0)],
      worker_to_rank_map = [(Some (Worker 7), 0), (Some (Worker 0), 1)],
      mesh_workers = [Some (Worker 7), Some (Worker 0)]\<rparr>"

definition task_with_dst_spec :: "ShardingSpec \<Rightarrow> SymbolicReshardingTask" where
  "task_with_dst_spec s =
     \<lparr>task_spec =
        ReshardingTaskSpec_init
          (array_on mesh_1x1 (var_aval var_vec8) \<lparr>sharding = [NoSharding], mesh_mapping = [Replicated 1]\<rparr>)
          (array_on mesh_1x8 (var_aval var_vec8) s)
          (Some (0, 0, 4)),
      collective_group = group_1x1_1x8, src_mesh = mesh_1x1, dst_mesh = mesh_1x8,
      sender_tasks = [(Worker 7, [])], receiver_tasks = [(Worker 0, [])],
      allgather_tasks = [(Worker 0, [])],
      sender_uuid_plan = [], receiver_uuid_plan = []\<rparr>"

subsection \<open>Rank assignment of a collective group\<close>

text \<open>\<^verbatim>\<open>",".join(device_strs)\<close>\<close>

fun join_comma :: "string list \<Rightarrow> string" where
  "join_comma [] = []"
| "join_comma [s] = s"
| "join_comma (s # t # rest) = s @ '','' @ join_comma (t # rest)"

text \<open>
  The loop over the hosts of the source mesh and its inner loop over the devices of a host:
  \<^verbatim>\<open>
  for i, _ in enumerate(src_mesh.host_ips):
      self.mesh_workers[i] = self.src_mesh.workers[i]
      for j in range(src_mesh.num_devices_per_host):
          device_str = self.src_mesh.device_strs[
              i * src_mesh.num_devices_per_host + j]
          self.device_str_to_rank_map[device_str] = (i, j)
          self.device_str_to_mesh_worker_map[
              device_str] = self.src_mesh.workers[i]
          self.device_str_to_host_id_map[device_str] = i
          self.device_str_to_device_id_map[device_str] = j
  \<close>
\<close>

fun src_devices_loop ::
  "Mesh \<Rightarrow> nat \<Rightarrow> worker \<Rightarrow> nat list \<Rightarrow> CollectiveGroup \<Rightarrow> error + CollectiveGroup" where
  "src_devices_loop src_mesh' i w [] self = Inr self"
| "src_devices_loop src_mesh' i w (j # js) self =
     (case list_get (device_strs src_mesh') (i * num_devices_per_host src_mesh' + j) of
        Inl e \<Rightarrow> Inl e
      | Inr device_str \<Rightarrow>
          src_devices_loop src_mesh' i w js
            (self\<lparr>device_str_to_rank_map :=
                     dict_set (device_str_to_rank_map self) device_str (i, j),
                   device_str_to_mesh_worker_map :=
                     dict_set (device_str_to_mesh_worker_map self) device_str w,
                   device_str_to_host_id_map :=
                     dict_set (device_str_to_host_id_map self) device_str i,
                   device_str_to_device_id_map :=
                     dict_set (device_str_to_device_id_map self) device_str j\<rparr>))"

fun src_hosts_loop :: "Mesh \<Rightarrow> nat list \<Rightarrow> CollectiveGroup \<Rightarrow> error + CollectiveGroup" where
  "src_hosts_loop src_mesh' [] self = Inr self"
| "src_hosts_loop src_mesh' (i # is) self =
     (case list_get (workers src_mesh') i of
        Inl e \<Rightarrow> Inl e
      | Inr w \<Rightarrow>
          (case src_devices_loop src_mesh' i w [0..<num_devices_per_host src_mesh']
                  (self\<lparr>mesh_workers := (mesh_workers self)[i := Some w]\<rparr>) of
             Inl e \<Rightarrow> Inl e
           | Inr self' \<Rightarrow> src_hosts_loop src_mesh' is self'))"

text \<open>
  The loop over the hosts of the destination mesh. The index into the device strings of
  the destination mesh is computed with the number of devices per host of the source
  mesh, as the source has it:
  \<^verbatim>\<open>
  for i, _ in enumerate(dst_mesh.host_ips):
      self.mesh_workers[
          i + len(self.src_mesh.host_ips)] = self.dst_mesh.workers[i]
      for j in range(dst_mesh.num_devices_per_host):
          device_str = self.dst_mesh.device_strs[
              i * src_mesh.num_devices_per_host + j]
          self.device_str_to_rank_map[device_str] = (
              i + len(src_mesh.host_ips), j)
          self.device_str_to_mesh_worker_map[
              device_str] = self.dst_mesh.workers[i]
          self.device_str_to_host_id_map[device_str] = i
          self.device_str_to_device_id_map[device_str] = j
  \<close>
\<close>

fun dst_devices_loop ::
  "Mesh \<Rightarrow> Mesh \<Rightarrow> nat \<Rightarrow> worker \<Rightarrow> nat list \<Rightarrow> CollectiveGroup \<Rightarrow> error + CollectiveGroup" where
  "dst_devices_loop src_mesh' dst_mesh' i w [] self = Inr self"
| "dst_devices_loop src_mesh' dst_mesh' i w (j # js) self =
     (case list_get (device_strs dst_mesh') (i * num_devices_per_host src_mesh' + j) of
        Inl e \<Rightarrow> Inl e
      | Inr device_str \<Rightarrow>
          dst_devices_loop src_mesh' dst_mesh' i w js
            (self\<lparr>device_str_to_rank_map :=
                     dict_set (device_str_to_rank_map self) device_str
                       (i + length (host_ips src_mesh'), j),
                   device_str_to_mesh_worker_map :=
                     dict_set (device_str_to_mesh_worker_map self) device_str w,
                   device_str_to_host_id_map :=
                     dict_set (device_str_to_host_id_map self) device_str i,
                   device_str_to_device_id_map :=
                     dict_set (device_str_to_device_id_map self) device_str j\<rparr>))"

fun dst_hosts_loop :: "Mesh \<Rightarrow> Mesh \<Rightarrow> nat list \<Rightarrow> CollectiveGroup \<Rightarrow> error + CollectiveGroup" where
  "dst_hosts_loop src_mesh' dst_mesh' [] self = Inr self"
| "dst_hosts_loop src_mesh' dst_mesh' (i # is) self =
     (case list_get (workers dst_mesh') i of
        Inl e \<Rightarrow> Inl e
      | Inr w \<Rightarrow>
          (case dst_devices_loop src_mesh' dst_mesh' i w [0..<num_devices_per_host dst_mesh']
                  (self\<lparr>mesh_workers :=
                           (mesh_workers self)[i + length (host_ips src_mesh') := Some w]\<rparr>) of
             Inl e \<Rightarrow> Inl e
           | Inr self' \<Rightarrow> dst_hosts_loop src_mesh' dst_mesh' is self'))"

text \<open>
  \<^verbatim>\<open>
  def __init__(self, device_strs, src_mesh, dst_mesh):
      self.device_strs = device_strs
      self.src_mesh = src_mesh
      self.dst_mesh = dst_mesh
      self.group_name = ",".join(self.device_strs)
      self.device_str_to_rank_map = {}
      self.device_str_to_mesh_worker_map = {}
      self.device_str_to_host_id_map = {}
      self.device_str_to_device_id_map = {}
      self.worker_to_rank_map = {}
      num_host = len(self.src_mesh.host_ips) + len(self.dst_mesh.host_ips)
      self.mesh_workers: List[Any] = [None] * num_host
      ...
      self.worker_to_rank_map = {
          worker: r for r, worker in enumerate(self.mesh_workers)
      }
  \<close>
\<close>

definition CollectiveGroup_init :: "string list \<Rightarrow> Mesh \<Rightarrow> Mesh \<Rightarrow> error + CollectiveGroup" where
  "CollectiveGroup_init device_strs' src_mesh' dst_mesh' =
     (let num_host = length (host_ips src_mesh') + length (host_ips dst_mesh');
          self = \<lparr>group_device_strs = device_strs', group_src_mesh = src_mesh',
                  group_dst_mesh = dst_mesh', group_name = join_comma device_strs',
                  device_str_to_rank_map = [], device_str_to_mesh_worker_map = [],
                  device_str_to_host_id_map = [], device_str_to_device_id_map = [],
                  worker_to_rank_map = [], mesh_workers = replicate num_host None\<rparr>
      in ebind (src_hosts_loop src_mesh' [0..<length (host_ips src_mesh')] self) (\<lambda>self.
         ebind (dst_hosts_loop src_mesh' dst_mesh' [0..<length (host_ips dst_mesh')] self) (\<lambda>self.
         Inr (self\<lparr>worker_to_rank_map :=
                     foldl (\<lambda>d (r, worker). dict_set d worker r) []
                       (enumerate 0 (mesh_workers self))\<rparr>))))"

text \<open>A destination mesh of two hosts with two devices each.\<close>

definition mesh_2x2 :: Mesh where
  "mesh_2x2 =
     \<lparr>host_ips = [''c'', ''d''], workers = [Worker 2, Worker 3],
      device_strs = [''c:0'', ''c:1'', ''d:0'', ''d:1''],
      num_devices_per_host = 2, num_hosts = 2, num_devices = 4\<rparr>"

subsection \<open>Creating the resharding specs\<close>

text \<open>
  A sharded stage and the schedule, with the attributes the communicator reads. The index of
  a mesh is never negative. The dependency matrix is a two-dimensional numpy array: its
  shape and its entries.
\<close>

record Stage =
  outvars :: "Var list"
  invars :: "Var list"
  output_sharding_specs :: "ShardingSpec list"
  input_sharding_specs :: "ShardingSpec list"

record ndarray2 =
  nd_shape0 :: nat
  nd_shape1 :: nat
  nd_entry :: "nat \<Rightarrow> nat \<Rightarrow> int"

record Schedule =
  meshes :: "Mesh list"
  stage_placement :: "nat \<Rightarrow> nat list"
  dependency :: ndarray2
  num_mesh :: nat

type_synonym resharding_specs = "(string, ReshardingTaskSpec) dict list list"

text \<open>\<^verbatim>\<open>np.argwhere(deps > 0)\<close>: the index pairs of the positive entries, in row-major
  order.\<close>

definition argwhere_positive :: "ndarray2 \<Rightarrow> (nat \<times> nat) list" where
  "argwhere_positive deps =
     concat (map (\<lambda>i. map (\<lambda>j. (i, j)) (filter (\<lambda>j. nd_entry deps i j > 0) [0..<nd_shape1 deps]))
                 [0..<nd_shape0 deps])"

text \<open>\<^verbatim>\<open>xs.index(x)\<close> for an \<open>x\<close> that occurs in \<open>xs\<close>.\<close>

fun list_index :: "'a list \<Rightarrow> 'a \<Rightarrow> nat" where
  "list_index [] x = 0"
| "list_index (y # ys) x = (if y = x then 0 else Suc (list_index ys x))"

text \<open>
  \<^verbatim>\<open>
  @staticmethod
  def _args_between(src_stage, dst_stage):
      resharding_vars = []
      src_indices = []
      dst_indices = []
      for i, var in enumerate(src_stage.outvars):
          if var in dst_stage.invars:
              resharding_vars.append(var)
              src_indices.append(i)
              dst_indices.append(dst_stage.invars.index(var))
      return resharding_vars, src_indices, dst_indices
  \<close>
  The three lists are kept zipped, as the caller reads them.
\<close>

definition args_between :: "Stage \<Rightarrow> Stage \<Rightarrow> (Var \<times> nat \<times> nat) list" where
  "args_between src_stage dst_stage =
     map (\<lambda>(i, var). (var, i, list_index (invars dst_stage) var))
         (filter (\<lambda>(i, var). var \<in> set (invars dst_stage)) (enumerate 0 (outvars src_stage)))"

text \<open>\<^verbatim>\<open>self.resharding_specs[src_mesh_index][dst_mesh_index][repr(var)] = task_spec\<close>\<close>

definition specs_set ::
  "resharding_specs \<Rightarrow> nat \<Rightarrow> nat \<Rightarrow> string \<Rightarrow> ReshardingTaskSpec \<Rightarrow> error + resharding_specs" where
  "specs_set specs src_mesh_index dst_mesh_index key task_spec' =
     ebind (list_get specs src_mesh_index) (\<lambda>row.
     ebind (list_get row dst_mesh_index) (\<lambda>d.
     Inr (specs[src_mesh_index := row[dst_mesh_index := dict_set d key task_spec']])))"

text \<open>
  The loop over the variables exchanged by a pair of stages:
  \<^verbatim>\<open>
  for var, out_var_index, in_var_index in zip(resharding_vars,
                                              out_var_indices,
                                              in_var_indices):
      src_sharding_spec = out_sharding_specs[out_var_index]
      dst_sharding_spec = in_sharding_specs[in_var_index]
      dst_sharding_spec, extra_slice = self._rewrite_allgather_specs(
          dst_sharding_spec, dst_mesh, var)
      src_array = VirtualDistributedArray(
          device_mesh=src_mesh, aval=var.aval, sharding_spec=src_sharding_spec)
      dst_array = VirtualDistributedArray(
          device_mesh=dst_mesh, aval=var.aval, sharding_spec=dst_sharding_spec)
      task_spec = ReshardingTaskSpec(src_array, dst_array, extra_slice)
      self.resharding_specs[src_mesh_index][dst_mesh_index][repr(
          var)] = task_spec
  \<close>
  The constructor of VirtualDistributedArray is the parameter \<open>new_array\<close>.
\<close>

fun vars_loop ::
  "GlobalConfig \<Rightarrow> (Mesh \<Rightarrow> ShapedArray \<Rightarrow> ShardingSpec \<Rightarrow> VirtualDistributedArray)
     \<Rightarrow> Stage \<Rightarrow> Stage \<Rightarrow> Mesh \<Rightarrow> Mesh \<Rightarrow> nat \<Rightarrow> nat
     \<Rightarrow> (Var \<times> nat \<times> nat) list \<Rightarrow> resharding_specs \<Rightarrow> error + resharding_specs" where
  "vars_loop global_config new_array src_stage dst_stage src_mesh' dst_mesh'
       src_mesh_index dst_mesh_index [] specs = Inr specs"
| "vars_loop global_config new_array src_stage dst_stage src_mesh' dst_mesh'
       src_mesh_index dst_mesh_index ((var, out_var_index, in_var_index) # rest) specs =
     (case list_get (output_sharding_specs src_stage) out_var_index of
        Inl e \<Rightarrow> Inl e
      | Inr src_sharding_spec' \<Rightarrow>
     (case list_get (input_sharding_specs dst_stage) in_var_index of
        Inl e \<Rightarrow> Inl e
      | Inr dst_sharding_spec0 \<Rightarrow>
     (case rewrite_allgather_specs global_config dst_sharding_spec0 dst_mesh' var of
        Inl e \<Rightarrow> Inl e
      | Inr (dst_sharding_spec', extra_slice) \<Rightarrow>
     (case specs_set specs src_mesh_index dst_mesh_index (var_repr var)
             (ReshardingTaskSpec_init
                (new_array src_mesh' (var_aval var) src_sharding_spec')
                (new_array dst_mesh' (var_aval var) dst_sharding_spec')
                extra_slice) of
        Inl e \<Rightarrow> Inl e
      | Inr specs' \<Rightarrow>
          vars_loop global_config new_array src_stage dst_stage src_mesh' dst_mesh'
            src_mesh_index dst_mesh_index rest specs'))))"

text \<open>
  The loop over the pairs of dependent stages:
  \<^verbatim>\<open>
  pairs = np.argwhere(deps > 0)
  for i in range(pairs.shape[0]):
      src_stage_index = pairs[i][1]
      src_stage = stages[src_stage_index]
      dst_stage_index = pairs[i][0]
      dst_stage = stages[dst_stage_index]
      src_mesh_index = stage_placements[src_stage_index]
      dst_mesh_index = stage_placements[dst_stage_index]
      src_mesh = meshes[src_mesh_index]
      dst_mesh = meshes[dst_mesh_index]
      # we only take care of cross-mesh sharding.
      if src_mesh_index == dst_mesh_index:
          continue
      resharding_vars, out_var_indices, in_var_indices = (
          self._args_between(src_stage, dst_stage))
      out_sharding_specs = src_stage.output_sharding_specs
      in_sharding_specs = dst_stage.input_sharding_specs
      ...
  \<close>
\<close>

fun pairs_loop ::
  "GlobalConfig \<Rightarrow> (Mesh \<Rightarrow> ShapedArray \<Rightarrow> ShardingSpec \<Rightarrow> VirtualDistributedArray)
     \<Rightarrow> Stage list \<Rightarrow> Mesh list \<Rightarrow> nat list
     \<Rightarrow> (nat \<times> nat) list \<Rightarrow> resharding_specs \<Rightarrow> error + resharding_specs" where
  "pairs_loop global_config new_array stages meshes' stage_placements [] specs = Inr specs"
| "pairs_loop global_config new_array stages meshes' stage_placements
       ((dst_stage_index, src_stage_index) # rest) specs =
     (case list_get stages src_stage_index of
        Inl e \<Rightarrow> Inl e
      | Inr src_stage \<Rightarrow>
     (case list_get stages dst_stage_index of
        Inl e \<Rightarrow> Inl e
      | Inr dst_stage \<Rightarrow>
     (case list_get stage_placements src_stage_index of
        Inl e \<Rightarrow> Inl e
      | Inr src_mesh_index \<Rightarrow>
     (case list_get stage_placements dst_stage_index of
        Inl e \<Rightarrow> Inl e
      | Inr dst_mesh_index \<Rightarrow>
     (case list_get meshes' src_mesh_index of
        Inl e \<Rightarrow> Inl e
      | Inr src_mesh' \<Rightarrow>
     (case list_get meshes' dst_mesh_index of
        Inl e \<Rightarrow> Inl e
      | Inr dst_mesh' \<Rightarrow>
          if src_mesh_index = dst_mesh_index
          then pairs_loop global_config new_array stages meshes' stage_placements rest specs
          else
            (case vars_loop global_config new_array src_stage dst_stage src_mesh' dst_mesh'
                    src_mesh_index dst_mesh_index (args_between src_stage dst_stage) specs of
               Inl e \<Rightarrow> Inl e
             | Inr specs' \<Rightarrow>
                 pairs_loop global_config new_array stages meshes' stage_placements rest
                   specs')))))))"

text \<open>\<^verbatim>\<open>[list(self._schedule.stage_placement(i))[0] for i in range(num_stage)]\<close>\<close>

fun stage_placements_of :: "Schedule \<Rightarrow> nat list \<Rightarrow> error + nat list" where
  "stage_placements_of schedule [] = Inr []"
| "stage_placements_of schedule (i # is) =
     (case list_get (stage_placement schedule i) 0 of
        Inl e \<Rightarrow> Inl e
      | Inr p \<Rightarrow>
          (case stage_placements_of schedule is of
             Inl e \<Rightarrow> Inl e
           | Inr ps \<Rightarrow> Inr (p # ps)))"

text \<open>
  \<^verbatim>\<open>
  def _create_resharding_specs(self):
      stages = self._sharded_stages
      meshes = self._schedule.meshes
      num_stage = len(self._sharded_stages)
      stage_placements = [
          list(self._schedule.stage_placement(i))[0] for i in range(num_stage)
      ]
      deps = self._schedule.dependency
      assert deps.shape[0] == num_stage
      assert deps.shape[1] == num_stage
      self.resharding_specs = [
          [{} for _ in range(self.num_mesh)] for _ in range(self.num_mesh)
      ]
      ...
  \<close>
  The result is the value of \<^verbatim>\<open>self.resharding_specs\<close> when the method returns.
\<close>

definition create_resharding_specs ::
  "GlobalConfig \<Rightarrow> (Mesh \<Rightarrow> ShapedArray \<Rightarrow> ShardingSpec \<Rightarrow> VirtualDistributedArray)
     \<Rightarrow> Stage list \<Rightarrow> Schedule \<Rightarrow> error + resharding_specs" where
  "create_resharding_specs global_config new_array sharded_stages schedule =
     (let stages = sharded_stages;
          meshes' = meshes schedule;
          num_stage = length sharded_stages
      in ebind (stage_placements_of schedule [0..<num_stage]) (\<lambda>stage_placements.
         let deps = dependency schedule
         in ebind (py_assert (nd_shape0 deps = num_stage)) (\<lambda>_.
            ebind (py_assert (nd_shape1 deps = num_stage)) (\<lambda>_.
            pairs_loop global_config new_array stages meshes' stage_placements
              (argwhere_positive deps)
              (replicate (num_mesh schedule) (replicate (num_mesh schedule) []))))))"

text \<open>
  \<^verbatim>\<open>
  def task_spec_iter(self):
      for i in range(self.num_mesh):
          for j in range(self.num_mesh):
              if not self.resharding_specs[i][j]:
                  continue
              yield i, j, self.resharding_specs[i][j]
  \<close>
  The result is the list of what the generator yields, or the exception it stops with.
\<close>

fun task_spec_iter_row ::
  "resharding_specs \<Rightarrow> nat \<Rightarrow> nat list
     \<Rightarrow> error + (nat \<times> nat \<times> (string, ReshardingTaskSpec) dict) list" where
  "task_spec_iter_row specs i [] = Inr []"
| "task_spec_iter_row specs i (j # js) =
     (case ebind (list_get specs i) (\<lambda>row. list_get row j) of
        Inl e \<Rightarrow> Inl e
      | Inr d \<Rightarrow>
          (case task_spec_iter_row specs i js of
             Inl e \<Rightarrow> Inl e
           | Inr out \<Rightarrow> if d = [] then Inr out else Inr ((i, j, d) # out)))"

fun task_spec_iter_rows ::
  "resharding_specs \<Rightarrow> nat \<Rightarrow> nat list
     \<Rightarrow> error + (nat \<times> nat \<times> (string, ReshardingTaskSpec) dict) list" where
  "task_spec_iter_rows specs n [] = Inr []"
| "task_spec_iter_rows specs n (i # is) =
     (case task_spec_iter_row specs i [0..<n] of
        Inl e \<Rightarrow> Inl e
      | Inr out \<Rightarrow>
          (case task_spec_iter_rows specs n is of
             Inl e \<Rightarrow> Inl e
           | Inr out' \<Rightarrow> Inr (out @ out')))"

definition task_spec_iter ::
  "nat \<Rightarrow> resharding_specs \<Rightarrow> error + (nat \<times> nat \<times> (string, ReshardingTaskSpec) dict) list" where
  "task_spec_iter num_mesh' specs = task_spec_iter_rows specs num_mesh' [0..<num_mesh']"

text \<open>
  A pipeline of two stages on two meshes: stage 0 on the mesh of one device produces the
  vector that stage 1 on the mesh of eight devices consumes, and stage 1 depends on
  stage 0.
\<close>

definition spec_replicated :: ShardingSpec where
  "spec_replicated = \<lparr>sharding = [NoSharding], mesh_mapping = [Replicated 1]\<rparr>"

definition stage_producer :: Stage where
  "stage_producer =
     \<lparr>outvars = [var_vec8], invars = [], output_sharding_specs = [spec_replicated],
      input_sharding_specs = []\<rparr>"

definition stage_consumer :: Stage where
  "stage_consumer =
     \<lparr>outvars = [], invars = [var_vec8], output_sharding_specs = [],
      input_sharding_specs = [spec_mesh_2d_rewritten]\<rparr>"

definition schedule_two_stages :: Schedule where
  "schedule_two_stages =
     \<lparr>meshes = [mesh_1x1, mesh_1x8],
      stage_placement = (\<lambda>i. [i]),
      dependency = \<lparr>nd_shape0 = 2, nd_shape1 = 2,
                    nd_entry = (\<lambda>i j. if i = 1 \<and> j = 0 then 1 else 0)\<rparr>,
      num_mesh = 2\<rparr>"

definition specs_two_stages :: resharding_specs where
  "specs_two_stages =
     [[[], [(''a'', ReshardingTaskSpec_init
                     (array_on mesh_1x1 (var_aval var_vec8) spec_replicated)
                     (array_on mesh_1x8 (var_aval var_vec8) spec_mesh_2d_rewritten) None)]],
      [[], []]]"

text \<open>
  The invariant of the loop over the stage pairs: the matrix is \<open>n\<close> by \<open>n\<close>, and a
  non-empty entry at \<open>(i, j)\<close> has \<open>i \<noteq> j\<close> and comes from a pair \<open>(d, s)\<close> of \<open>P\<close> with stage
  \<open>s\<close> placed on mesh \<open>i\<close> and stage \<open>d\<close> on mesh \<open>j\<close>.
\<close>

definition specs_inv :: "nat \<Rightarrow> (nat \<times> nat) set \<Rightarrow> nat list \<Rightarrow> resharding_specs \<Rightarrow> bool" where
  "specs_inv n P pl specs \<longleftrightarrow>
     length specs = n \<and> (\<forall>i<n. length (specs ! i) = n) \<and>
     (\<forall>i<n. \<forall>j<n. specs ! i ! j \<noteq> [] \<longrightarrow>
        i \<noteq> j \<and> (\<exists>(d, s)\<in>P. s < length pl \<and> d < length pl \<and> pl ! s = i \<and> pl ! d = j))"

subsection \<open>Source tile slices of a destination tile\<close>

text \<open>\<^verbatim>\<open>divmod(a, b)\<close> on integers.\<close>

definition py_divmod :: "int \<Rightarrow> int \<Rightarrow> error + (int \<times> int)" where
  "py_divmod a b = (if b = 0 then Inl ZeroDivisionError else Inr (a div b, a mod b))"

text \<open>
  Modelled from the spec: \<^verbatim>\<open>unflatten_tile_index\<close> of
  \<^verbatim>\<open>alpa.pipeline_parallel.resharding_tensor\<close>, which is not among the sources. The spec
  has it as the row-major unflattening of a linear index into per-axis coordinates: the
  last axis varies fastest.
\<close>

fun unflatten_tile_index :: "int \<Rightarrow> int list \<Rightarrow> int list" where
  "unflatten_tile_index index [] = []"
| "unflatten_tile_index index (n # dims) =
     (index div prod_list dims) # unflatten_tile_index (index mod prod_list dims) dims"

text \<open>
  \<^verbatim>\<open>self.src.tiles[tuple(tile_index)]\<close>: an element of the numpy array \<^verbatim>\<open>tiles\<close>, whose
  dims is \<open>vda_tile_shape\<close>. An index of a numpy array may be negative and then counts
  from the end of its axis; too many indices raise IndexError, and with too few the result
  is an array, which has no attribute \<^verbatim>\<open>tile_shape\<close>.
\<close>

fun ravel_index :: "int list \<Rightarrow> int list \<Rightarrow> error + int" where
  "ravel_index [] [] = Inr 0"
| "ravel_index (n # dims) (k # idx) =
     (let k' = (if k < 0 then k + n else k)
      in if 0 \<le> k' \<and> k' < n then
           (case ravel_index dims idx of
              Inl e \<Rightarrow> Inl e
            | Inr rest \<Rightarrow> Inr (k' * prod_list dims + rest))
         else Inl IndexError)"
| "ravel_index [] (k # idx) = Inl IndexError"
| "ravel_index (n # dims) [] = Inl AttributeError"

definition tiles_get :: "VirtualDistributedArray \<Rightarrow> int list \<Rightarrow> error + Tile" where
  "tiles_get a tile_index =
     ebind (ravel_index (vda_tile_shape a) tile_index) (\<lambda>flat.
     list_get (vda_tiles a) (nat flat))"

text \<open>
  One round of the first loop, for axis \<open>i\<close> of length \<open>dim\<close>:
  \<^verbatim>\<open>
  for i, dim in enumerate(self.src.tensor_shape):
      tile_length, ragged = divmod(dim, self.src.tile_shape[i])
      assert not ragged
      start_tile, start_tile_offset = divmod(tile.indices[i].start,
                                             tile_length)
      end_tile, end_tile_offset = divmod(tile.indices[i].stop,
                                         tile_length)
      # if falling on the middle a src tile, increase the index of the final tile by 1.
      if end_tile_offset:
          end_tile = end_tile + 1
      # if falling on the end of a src tile, the offset should be [0: tile_length]
      if end_tile_offset == 0:
          end_tile_offset = tile_length
      related_tile_start_end[i] = (start_tile, end_tile)
      related_tile_offset[i] = (start_tile_offset, end_tile_offset)
  \<close>
  The two lists are kept zipped: an entry is the pair of the tuple of
  \<^verbatim>\<open>related_tile_start_end\<close> and the tuple of \<^verbatim>\<open>related_tile_offset\<close>.
\<close>

type_synonym related = "((int \<times> int) \<times> (int \<times> int)) list"

definition related_on_axis ::
  "VirtualDistributedArray \<Rightarrow> Tile \<Rightarrow> nat \<Rightarrow> int \<Rightarrow> error + ((int \<times> int) \<times> (int \<times> int))" where
  "related_on_axis src_array tile i dim =
     ebind (list_get (vda_tile_shape src_array) i) (\<lambda>n.
     ebind (py_divmod dim n) (\<lambda>(tile_length, ragged).
     ebind (py_assert (ragged = 0)) (\<lambda>_.
     ebind (list_get (indices tile) i) (\<lambda>sl.
     case start sl of
       None \<Rightarrow> Inl TypeError
     | Some a \<Rightarrow>
         ebind (py_divmod a tile_length) (\<lambda>(start_tile, start_tile_offset).
         case stop sl of
           None \<Rightarrow> Inl TypeError
         | Some b \<Rightarrow>
             ebind (py_divmod b tile_length) (\<lambda>(end_tile0, end_tile_offset0).
             let end_tile = (if end_tile_offset0 \<noteq> 0 then end_tile0 + 1 else end_tile0);
                 end_tile_offset =
                   (if end_tile_offset0 = 0 then tile_length else end_tile_offset0)
             in Inr ((start_tile, end_tile), (start_tile_offset, end_tile_offset))))))))"

fun related_loop ::
  "VirtualDistributedArray \<Rightarrow> Tile \<Rightarrow> nat \<Rightarrow> int list \<Rightarrow> error + related" where
  "related_loop src_array tile i [] = Inr []"
| "related_loop src_array tile i (dim # dims) =
     (case related_on_axis src_array tile i dim of
        Inl e \<Rightarrow> Inl e
      | Inr x \<Rightarrow>
          (case related_loop src_array tile (Suc i) dims of
             Inl e \<Rightarrow> Inl e
           | Inr xs \<Rightarrow> Inr (x # xs)))"

text \<open>
  \<^verbatim>\<open>
  tile_index_absolute = [
      start + tile_index_relative[dim_index]
      for dim_index, (start, end) in enumerate(related_tile_start_end)
  ]
  \<close>
\<close>

fun absolute_index :: "int list \<Rightarrow> nat \<Rightarrow> related \<Rightarrow> error + int list" where
  "absolute_index tile_index_relative dim_index [] = Inr []"
| "absolute_index tile_index_relative dim_index (((start', end'), off) # rest) =
     (case list_get tile_index_relative dim_index of
        Inl e \<Rightarrow> Inl e
      | Inr rel \<Rightarrow>
          (case absolute_index tile_index_relative (Suc dim_index) rest of
             Inl e \<Rightarrow> Inl e
           | Inr xs \<Rightarrow> Inr ((start' + rel) # xs)))"

text \<open>
  The four cases of one axis \<open>i\<close> of one source tile with index \<open>r\<close> on that axis:
  \<^verbatim>\<open>
  if r == start and r == end - 1:
      # the dst tile is smaller or equal to the src tile
      left_offset = related_tile_offset[i][0]
      right_offset = related_tile_offset[i][1]
      offsets.append(slice(left_offset, right_offset))
      indices.append(slice(0, tile.tile_shape[i]))  # all included
  elif r == start:
      # meaning it is the first involved tile, and not the last
      offset = related_tile_offset[i][0]
      offsets.append(slice(offset, tile_length_on_this_dim))
      indices.append(slice(0, tile_length_on_this_dim - offset))
  elif r == end - 1:
      # meaning it is the last involved tile, and not the first
      offset = related_tile_offset[i][1]
      offsets.append(slice(0, offset))
      indices.append(
          slice(tile.tile_shape[i] - offset, tile.tile_shape[i]))
  else:
      # meaning it is a fully involved tile
      offset = related_tile_offset[i][0]
      offsets.append(slice(0, tile_length_on_this_dim))
      left_in_dst_tile = (
          tile_length_on_this_dim - offset +
          (tile_index_relative[i] - 1) * tile_length_on_this_dim)
      right_in_dst_tile = left_in_dst_tile + tile_length_on_this_dim
      indices.append(slice(left_in_dst_tile, right_in_dst_tile))
  \<close>
  The result is the pair of the slice appended to \<^verbatim>\<open>offsets\<close> and the slice appended to
  \<^verbatim>\<open>indices\<close>.
\<close>

definition axis_offsets_indices ::
  "(int \<times> int) \<Rightarrow> (int \<times> int) \<Rightarrow> Tile \<Rightarrow> int \<Rightarrow> int list \<Rightarrow> nat \<Rightarrow> int
     \<Rightarrow> error + (pyslice \<times> pyslice)" where
  "axis_offsets_indices start_end off tile tile_length_on_this_dim tile_index_relative i r =
     (case (start_end, off) of ((start', end'), (start_tile_offset, end_tile_offset)) \<Rightarrow>
        if r = start' \<and> r = end' - 1 then
          ebind (list_get (tile_shape tile) i) (\<lambda>ts.
          Inr (Slice (Some start_tile_offset) (Some end_tile_offset), Slice (Some 0) (Some ts)))
        else if r = start' then
          Inr (Slice (Some start_tile_offset) (Some tile_length_on_this_dim),
               Slice (Some 0) (Some (tile_length_on_this_dim - start_tile_offset)))
        else if r = end' - 1 then
          ebind (list_get (tile_shape tile) i) (\<lambda>ts.
          Inr (Slice (Some 0) (Some end_tile_offset),
               Slice (Some (ts - end_tile_offset)) (Some ts)))
        else
          ebind (list_get tile_index_relative i) (\<lambda>rel.
          let left_in_dst_tile =
                tile_length_on_this_dim - start_tile_offset + (rel - 1) * tile_length_on_this_dim;
              right_in_dst_tile = left_in_dst_tile + tile_length_on_this_dim
          in Inr (Slice (Some 0) (Some tile_length_on_this_dim),
                  Slice (Some left_in_dst_tile) (Some right_in_dst_tile))))"

text \<open>
  The loop over the axes of one source tile:
  \<^verbatim>\<open>
  for i, r in enumerate(tile_index_absolute):
      start, end = related_tile_start_end[i]
      tile_length_on_this_dim = self.src.tiles[tuple(
          tile_index_absolute)].tile_shape[i]
      ...
  \<close>
\<close>

fun axes_loop ::
  "VirtualDistributedArray \<Rightarrow> Tile \<Rightarrow> related \<Rightarrow> int list \<Rightarrow> int list \<Rightarrow> nat \<Rightarrow> int list
     \<Rightarrow> error + (pyslice list \<times> pyslice list)" where
  "axes_loop src_array tile rel_tiles tile_index_relative tile_index_absolute i [] = Inr ([], [])"
| "axes_loop src_array tile rel_tiles tile_index_relative tile_index_absolute i (r # rs) =
     (case list_get rel_tiles i of
        Inl e \<Rightarrow> Inl e
      | Inr (start_end, off) \<Rightarrow>
     (case ebind (tiles_get src_array tile_index_absolute) (\<lambda>t. list_get (tile_shape t) i) of
        Inl e \<Rightarrow> Inl e
      | Inr tile_length_on_this_dim \<Rightarrow>
     (case axis_offsets_indices start_end off tile tile_length_on_this_dim
             tile_index_relative i r of
        Inl e \<Rightarrow> Inl e
      | Inr (offset_slice, ix) \<Rightarrow>
     (case axes_loop src_array tile rel_tiles tile_index_relative tile_index_absolute
             (Suc i) rs of
        Inl e \<Rightarrow> Inl e
      | Inr (offsets, indices') \<Rightarrow> Inr (offset_slice # offsets, ix # indices')))))"

text \<open>\<^verbatim>\<open>TileSlice(tile, offset=offsets)\<close>\<close>

definition TileSlice_init :: "Tile \<Rightarrow> pyslice list \<Rightarrow> TileSlice" where
  "TileSlice_init t offsets =
     \<lparr>indices = indices t, tile_shape = tile_shape t,
      replica_device_strs = replica_device_strs t, offset = offsets\<rparr>"

text \<open>
  One round of the loop over the tile slices:
  \<^verbatim>\<open>
  for tileslice_index in range(num_src_tileslices):
      tile_index_relative = unflatten_tile_index(
          tileslice_index,
          [end - start for start, end in related_tile_start_end])
      tile_index_absolute = [...]
      offsets = []
      indices = []
      for i, r in enumerate(tile_index_absolute):
          ...
      this_tileslice = TileSlice(
          self.src.tiles[tuple(tile_index_absolute)], offset=offsets)
      src_tileslices.append(this_tileslice)
      indices_in_dst_tile.append(indices)
  \<close>
\<close>

definition related_extents :: "related \<Rightarrow> int list" where
  "related_extents rel_tiles = map (\<lambda>((start', end'), off). end' - start') rel_tiles"

definition tileslice_at ::
  "VirtualDistributedArray \<Rightarrow> Tile \<Rightarrow> related \<Rightarrow> int \<Rightarrow> error + (TileSlice \<times> pyslice list)" where
  "tileslice_at src_array tile rel_tiles tileslice_index =
     (let tile_index_relative = unflatten_tile_index tileslice_index (related_extents rel_tiles)
      in ebind (absolute_index tile_index_relative 0 rel_tiles) (\<lambda>tile_index_absolute.
         ebind (axes_loop src_array tile rel_tiles tile_index_relative tile_index_absolute 0
                  tile_index_absolute) (\<lambda>(offsets, indices').
         ebind (tiles_get src_array tile_index_absolute) (\<lambda>t.
         Inr (TileSlice_init t offsets, indices')))))"

fun tileslices_loop ::
  "VirtualDistributedArray \<Rightarrow> Tile \<Rightarrow> related \<Rightarrow> int list
     \<Rightarrow> error + (TileSlice list \<times> pyslice list list)" where
  "tileslices_loop src_array tile rel_tiles [] = Inr ([], [])"
| "tileslices_loop src_array tile rel_tiles (tileslice_index # rest) =
     (case tileslice_at src_array tile rel_tiles tileslice_index of
        Inl e \<Rightarrow> Inl e
      | Inr (this_tileslice, indices') \<Rightarrow>
          (case tileslices_loop src_array tile rel_tiles rest of
             Inl e \<Rightarrow> Inl e
           | Inr (src_tileslices, indices_in_dst_tile) \<Rightarrow>
               Inr (this_tileslice # src_tileslices, indices' # indices_in_dst_tile)))"

text \<open>
  \<^verbatim>\<open>
  def _look_up_dst_tile_from_src(self, tile):
      related_tile_start_end = [tuple()] * self.src.tensor_rank
      related_tile_offset = [tuple()] * self.src.tensor_rank
      for i, dim in enumerate(self.src.tensor_shape):
          ...
      # count the number of tile slices
      num_src_tileslices = 1
      for start, end in related_tile_start_end:
          num_src_tileslices = num_src_tileslices * (end - start)
      src_tileslices = []
      indices_in_dst_tile = []
      for tileslice_index in range(num_src_tileslices):
          ...
      return src_tileslices, indices_in_dst_tile
  \<close>
\<close>

definition look_up_dst_tile_from_src ::
  "ReshardingTaskSpec \<Rightarrow> Tile \<Rightarrow> error + (TileSlice list \<times> pyslice list list)" where
  "look_up_dst_tile_from_src self tile =
     ebind (related_loop (src self) tile 0 (tensor_shape (src self))) (\<lambda>rel_tiles.
     let num_src_tileslices = prod_list (related_extents rel_tiles)
     in tileslices_loop (src self) tile rel_tiles (map int [0..<nat num_src_tileslices]))"

text \<open>
  \<^verbatim>\<open>
  def generate_src_dst_map(self):
      dst_tile_to_src_tiles_map = []
      for tile in self.dst.tiles.flatten():
          src_tile_slices, indices_in_dst_tile = self._look_up_dst_tile_from_src(tile)
          dst_tile_to_src_tiles_map.append(
              (tile, src_tile_slices, indices_in_dst_tile))
      return dst_tile_to_src_tiles_map
  \<close>
\<close>

fun src_dst_map_loop ::
  "ReshardingTaskSpec \<Rightarrow> Tile list \<Rightarrow> error + (Tile \<times> TileSlice list \<times> pyslice list list) list" where
  "src_dst_map_loop self [] = Inr []"
| "src_dst_map_loop self (tile # rest) =
     (case look_up_dst_tile_from_src self tile of
        Inl e \<Rightarrow> Inl e
      | Inr (src_tile_slices, indices_in_dst_tile) \<Rightarrow>
          (case src_dst_map_loop self rest of
             Inl e \<Rightarrow> Inl e
           | Inr m \<Rightarrow> Inr ((tile, src_tile_slices, indices_in_dst_tile) # m)))"

definition generate_src_dst_map ::
  "ReshardingTaskSpec \<Rightarrow> error + (Tile \<times> TileSlice list \<times> pyslice list list) list" where
  "generate_src_dst_map self = src_dst_map_loop self (vda_tiles (dst self))"

text \<open>
  \<^verbatim>\<open>
  @property
  def dst_tile_to_src_tiles_map(self):
      if not self._dst_tile_to_src_tiles_map:
          self._dst_tile_to_src_tiles_map = self.generate_src_dst_map()
      return self._dst_tile_to_src_tiles_map
  \<close>
  The value of the property. The write to the cache is left out of the result: the map
  is a function of \<open>src\<close> and \<open>dst\<close>, which no method changes, so a later read gives the same
  value whether it finds the cache or computes the map again.
\<close>

definition dst_tile_to_src_tiles_map ::
  "ReshardingTaskSpec \<Rightarrow> error + (Tile \<times> TileSlice list \<times> pyslice list list) list" where
  "dst_tile_to_src_tiles_map self =
     (case dst_tile_to_src_tiles_map_cache self of
        None \<Rightarrow> generate_src_dst_map self
      | Some m \<Rightarrow> if m = [] then generate_src_dst_map self else Inr m)"

subsection \<open>Tiling of a destination tile: the notions of the statement\<close>

text \<open>
  The length of a source tile along axis \<open>i\<close>, and the bounds of a tile along axis \<open>i\<close>.
\<close>

definition src_tile_length :: "VirtualDistributedArray \<Rightarrow> nat \<Rightarrow> int" where
  "src_tile_length a i = tensor_shape a ! i div vda_tile_shape a ! i"

definition tile_start :: "Tile \<Rightarrow> nat \<Rightarrow> int" where
  "tile_start t i = (case start (indices t ! i) of Some x \<Rightarrow> x | None \<Rightarrow> 0)"

definition tile_stop :: "Tile \<Rightarrow> nat \<Rightarrow> int" where
  "tile_stop t i = (case stop (indices t ! i) of Some x \<Rightarrow> x | None \<Rightarrow> 0)"

text \<open>
  The source array is tiled evenly: it has a positive number of tiles along every axis,
  the number divides the positive length of the axis, the array of tiles has the shape
  \<open>vda_tile_shape\<close>, and every tile has the shape of an even share.
\<close>

definition evenly_tiled :: "VirtualDistributedArray \<Rightarrow> bool" where
  "evenly_tiled a \<longleftrightarrow>
     length (vda_tile_shape a) = tensor_rank a \<and>
     (\<forall>i<tensor_rank a. 0 < vda_tile_shape a ! i \<and> 0 < tensor_shape a ! i \<and>
        tensor_shape a ! i mod vda_tile_shape a ! i = 0) \<and>
     length (vda_tiles a) = nat (prod_list (vda_tile_shape a)) \<and>
     (\<forall>t\<in>set (vda_tiles a).
        tile_shape t = map (\<lambda>i. src_tile_length a i) [0..<tensor_rank a])"

text \<open>
  A tile of an array of shape \<open>dims\<close>: on every axis a range \<open>[a, b)\<close> within the axis, and
  \<open>b - a\<close> as its extent in \<open>tile_shape\<close>.
\<close>

definition tile_within :: "int list \<Rightarrow> Tile \<Rightarrow> bool" where
  "tile_within dims t \<longleftrightarrow>
     length (indices t) = length dims \<and> length (tile_shape t) = length dims \<and>
     (\<forall>i<length dims.
        indices t ! i = Slice (Some (tile_start t i)) (Some (tile_stop t i)) \<and>
        0 \<le> tile_start t i \<and> tile_start t i \<le> tile_stop t i \<and> tile_stop t i \<le> dims ! i \<and>
        tile_shape t ! i = tile_stop t i - tile_start t i)"

text \<open>A point lies in the box of a list of slices, and in the box \<open>[0, n\<^sub>0) x ...\<close> of a
  shape.\<close>

definition in_slice :: "pyslice \<Rightarrow> int \<Rightarrow> bool" where
  "in_slice s x =
     (case s of Slice (Some lo) (Some hi) \<Rightarrow> lo \<le> x \<and> x < hi | _ \<Rightarrow> False)"

definition in_slices :: "pyslice list \<Rightarrow> int list \<Rightarrow> bool" where
  "in_slices sl p = list_all2 in_slice sl p"

definition in_shape :: "int list \<Rightarrow> int list \<Rightarrow> bool" where
  "in_shape dims p = list_all2 (\<lambda>n x. 0 \<le> x \<and> x < n) dims p"

text \<open>Two slices with integer bounds and the same length.\<close>

definition same_extent :: "pyslice \<Rightarrow> pyslice \<Rightarrow> bool" where
  "same_extent s s' =
     (case (s, s') of
        (Slice (Some lo) (Some hi), Slice (Some lo') (Some hi')) \<Rightarrow> hi - lo = hi' - lo'
      | _ \<Rightarrow> False)"

text \<open>
  The related source tiles of an axis in closed form, and the placement of source tile \<open>r\<close>
  of an axis within the destination tile: the part of \<open>[r * L, (r + 1) * L)\<close> that the tile
  \<open>[a, b)\<close> covers, shifted by \<open>a\<close>.
\<close>

definition axis_rel :: "int \<Rightarrow> int \<Rightarrow> int \<Rightarrow> (int \<times> int) \<times> (int \<times> int)" where
  "axis_rel L a b =
     ((a div L, if b mod L \<noteq> 0 then b div L + 1 else b div L),
      (a mod L, if b mod L = 0 then L else b mod L))"

definition place_lo :: "int \<Rightarrow> int \<Rightarrow> int \<Rightarrow> int" where
  "place_lo L a r = max 0 (r * L - a)"

definition place_hi :: "int \<Rightarrow> int \<Rightarrow> int \<Rightarrow> int \<Rightarrow> int" where
  "place_hi L a b r = min (b - a) ((r + 1) * L - a)"

text \<open>
  The closed forms of what \<open>look_up_dst_tile_from_src\<close> computes for a destination tile \<open>t\<close>
  of an evenly tiled source array \<open>a\<close>: the related tiles of every axis, the absolute
  index of the source tile of the tile slice with number \<open>k\<close>, and for a source tile with
  index \<open>idx\<close> its placement in the destination tile and the offset extracted from it.
\<close>

definition rel_of :: "VirtualDistributedArray \<Rightarrow> Tile \<Rightarrow> related" where
  "rel_of a t =
     map (\<lambda>j. axis_rel (src_tile_length a j) (tile_start t j) (tile_stop t j))
       [0..<tensor_rank a]"

definition absolute_of :: "VirtualDistributedArray \<Rightarrow> Tile \<Rightarrow> int \<Rightarrow> int list" where
  "absolute_of a t k =
     map (\<lambda>j. fst (fst (rel_of a t ! j)) +
               unflatten_tile_index k (related_extents (rel_of a t)) ! j)
       [0..<tensor_rank a]"

definition placement_of :: "VirtualDistributedArray \<Rightarrow> Tile \<Rightarrow> int list \<Rightarrow> pyslice list" where
  "placement_of a t idx =
     map (\<lambda>j. Slice (Some (place_lo (src_tile_length a j) (tile_start t j) (idx ! j)))
                     (Some (place_hi (src_tile_length a j) (tile_start t j) (tile_stop t j)
                              (idx ! j))))
       [0..<tensor_rank a]"

definition extraction_of :: "VirtualDistributedArray \<Rightarrow> Tile \<Rightarrow> int list \<Rightarrow> pyslice list" where
  "extraction_of a t idx =
     map (\<lambda>j. Slice (Some (place_lo (src_tile_length a j) (tile_start t j) (idx ! j) +
                             tile_start t j - idx ! j * src_tile_length a j))
                     (Some (place_hi (src_tile_length a j) (tile_start t j) (tile_stop t j)
                              (idx ! j) +
                             tile_start t j - idx ! j * src_tile_length a j)))
       [0..<tensor_rank a]"

text \<open>
  A 4 x 4 array on the mesh of two hosts, chunked in two along its first axis: two source
  tiles of shape 2 x 4, each with two replicas. The destination tile \<open>[1:4, 2:4]\<close> meets
  both source tiles.
\<close>

definition new_tile :: "(int \<times> int) list \<Rightarrow> string list \<Rightarrow> Tile" where
  "new_tile ranges devs =
     \<lparr>indices = map (\<lambda>(lo, hi). Slice (Some lo) (Some hi)) ranges,
      tile_shape = map (\<lambda>(lo, hi). hi - lo) ranges,
      replica_device_strs = devs\<rparr>"

definition array_4x4_rows :: VirtualDistributedArray where
  "array_4x4_rows =
     \<lparr>device_mesh = mesh_2x2, aval = \<lparr>shape = [4, 4], dtype = ''float32''\<rparr>,
      sharding_spec = \<lparr>sharding = [Chunked [2], NoSharding],
                        mesh_mapping = [ShardedAxis 0, Replicated 2]\<rparr>,
      vda_tile_shape = [2, 1],
      vda_tiles = [new_tile [(0, 2), (0, 4)] [''c:0'', ''c:1''],
                   new_tile [(2, 4), (0, 4)] [''d:0'', ''d:1'']],
      vda_indices = [[Slice (Some 0) (Some 2), Slice None None],
                     [Slice (Some 0) (Some 2), Slice None None],
                     [Slice (Some 2) (Some 4), Slice None None],
                     [Slice (Some 2) (Some 4), Slice None None]]\<rparr>"

definition tile_1_4_2_4 :: Tile where
  "tile_1_4_2_4 = new_tile [(1, 4), (2, 4)] [''a:0'']"

definition array_4x4_on_1x1 :: VirtualDistributedArray where
  "array_4x4_on_1x1 =
     \<lparr>device_mesh = mesh_1x1, aval = \<lparr>shape = [4, 4], dtype = ''float32''\<rparr>,
      sharding_spec = \<lparr>sharding = [NoSharding, NoSharding], mesh_mapping = [Replicated 1]\<rparr>,
      vda_tile_shape = [1, 1],
      vda_tiles = [new_tile [(0, 4), (0, 4)] [''a:0'']],
      vda_indices = [[Slice None None, Slice None None]]\<rparr>"

definition spec_4x4 :: ReshardingTaskSpec where
  "spec_4x4 = ReshardingTaskSpec_init array_4x4_rows array_4x4_on_1x1 None"

subsection \<open>The load-balanced strategy\<close>

text \<open>
  The two load counters of the communicator, \<^verbatim>\<open>_sender_loads\<close> and \<^verbatim>\<open>_receiver_loads\<close>:
  maps from device strings to loads. The size of a tile slice (the property
  \<^verbatim>\<open>slice_size\<close> of \<^verbatim>\<open>resharding_tensor.TileSlice\<close>, a number of elements) is the
  parameter \<open>slice_size\<close> of the functions below.
\<close>

record Loads =
  sender_loads :: "(string, nat) dict"
  receiver_loads :: "(string, nat) dict"

text \<open>
  \<^verbatim>\<open>
  loads = {
      sender: self._sender_loads[sender]
      for sender in src_tileslice.replica_device_strs
  }
  \<close>
\<close>

fun build_loads ::
  "(string, nat) dict \<Rightarrow> string list \<Rightarrow> (string, nat) dict \<Rightarrow> error + (string, nat) dict" where
  "build_loads sender_loads' [] loads = Inr loads"
| "build_loads sender_loads' (sender # rest) loads =
     (case dict_get sender_loads' sender of
        Inl e \<Rightarrow> Inl e
      | Inr l \<Rightarrow> build_loads sender_loads' rest (dict_set loads sender l))"

text \<open>
  \<^verbatim>\<open>min(loads, key=loads.get)\<close>: the keys are visited in the order of the dict, and a
  key replaces the best one so far only when its value is smaller. An empty dict raises
  ValueError.
\<close>

definition py_min_key :: "(string, nat) dict \<Rightarrow> error + string" where
  "py_min_key loads =
     (case loads of
        [] \<Rightarrow> Inl ValueError
      | kv # rest \<Rightarrow>
          Inr (fst (foldl (\<lambda>best kv'. if snd kv' < snd best then kv' else best) kv rest)))"

text \<open>
  The body of the innermost loop, for one receiver and one source tile slice:
  \<^verbatim>\<open>
  loads = {...}
  sender = min(loads, key=loads.get)
  per_spec_plan[receiver_idx][src_tileslice_idx] = sender
  # upload load on-the-fly
  self._sender_loads[sender] += src_tileslice.slice_size
  self._receiver_loads[receiver] += src_tileslice.slice_size
  \<close>
  The result is the chosen sender and the counters after the two updates.
\<close>

definition assign_sender ::
  "(TileSlice \<Rightarrow> nat) \<Rightarrow> string \<Rightarrow> TileSlice \<Rightarrow> Loads \<Rightarrow> error + (string \<times> Loads)" where
  "assign_sender slice_size receiver src_tileslice self =
     ebind (build_loads (sender_loads self) (replica_device_strs src_tileslice) []) (\<lambda>loads.
     ebind (py_min_key loads) (\<lambda>sender.
     ebind (dict_get (sender_loads self) sender) (\<lambda>sl.
     let self1 = self\<lparr>sender_loads :=
                        dict_set (sender_loads self) sender (sl + slice_size src_tileslice)\<rparr>
     in ebind (dict_get (receiver_loads self1) receiver) (\<lambda>rl.
        Inr (sender,
             self1\<lparr>receiver_loads :=
                      dict_set (receiver_loads self1) receiver
                        (rl + slice_size src_tileslice)\<rparr>)))))"

text \<open>The loop over the source tile slices of a destination tile, for one receiver: a row of
  the plan.\<close>

fun slices_loop ::
  "(TileSlice \<Rightarrow> nat) \<Rightarrow> string \<Rightarrow> TileSlice list \<Rightarrow> Loads \<Rightarrow> error + (string list \<times> Loads)" where
  "slices_loop slice_size receiver [] self = Inr ([], self)"
| "slices_loop slice_size receiver (src_tileslice # rest) self =
     (case assign_sender slice_size receiver src_tileslice self of
        Inl e \<Rightarrow> Inl e
      | Inr (sender, self') \<Rightarrow>
          (case slices_loop slice_size receiver rest self' of
             Inl e \<Rightarrow> Inl e
           | Inr (row, self'') \<Rightarrow> Inr (sender # row, self'')))"

text \<open>The loop over the replicas of a destination tile: the plan of the tile.\<close>

fun receivers_loop ::
  "(TileSlice \<Rightarrow> nat) \<Rightarrow> string list \<Rightarrow> TileSlice list \<Rightarrow> Loads
     \<Rightarrow> error + (string list list \<times> Loads)" where
  "receivers_loop slice_size [] src_tileslices self = Inr ([], self)"
| "receivers_loop slice_size (receiver # rest) src_tileslices self =
     (case slices_loop slice_size receiver src_tileslices self of
        Inl e \<Rightarrow> Inl e
      | Inr (row, self') \<Rightarrow>
          (case receivers_loop slice_size rest src_tileslices self' of
             Inl e \<Rightarrow> Inl e
           | Inr (rows, self'') \<Rightarrow> Inr (row # rows, self'')))"

text \<open>The loop over the destination tiles: the plans of the spec.\<close>

fun plans_loop ::
  "(TileSlice \<Rightarrow> nat) \<Rightarrow> (Tile \<times> TileSlice list \<times> pyslice list list) list \<Rightarrow> Loads
     \<Rightarrow> error + (string list list list \<times> Loads)" where
  "plans_loop slice_size [] self = Inr ([], self)"
| "plans_loop slice_size ((dst_tile, src_tileslices, ixs) # rest) self =
     (case receivers_loop slice_size (replica_device_strs dst_tile) src_tileslices self of
        Inl e \<Rightarrow> Inl e
      | Inr (per_spec_plan, self') \<Rightarrow>
          (case plans_loop slice_size rest self' of
             Inl e \<Rightarrow> Inl e
           | Inr (plans, self'') \<Rightarrow> Inr (per_spec_plan # plans, self'')))"

text \<open>
  \<^verbatim>\<open>
  def _generate_send_recv_resharding_strategy_by_loads(self, spec):
      is_local_allgather = spec.allgather_slice is not None
      per_spec_plans = []
      for dst_tile, src_tileslices, _ in spec.dst_tile_to_src_tiles_map:
          # plan is a 2D array
          per_spec_plan = np.empty(
              (len(dst_tile.replica_device_strs), len(src_tileslices)),
              dtype=object)
          for receiver_idx, receiver in enumerate(
                  dst_tile.replica_device_strs):
              for src_tileslice_idx, src_tileslice in enumerate(
                      src_tileslices):
                  ...
          per_spec_plans.append(per_spec_plan)
      strategy = ReshardingStrategy(per_spec_plans, is_local_allgather)
      return strategy
  \<close>
  The result is the strategy and the counters of the communicator afterwards.
\<close>

definition generate_send_recv_resharding_strategy_by_loads ::
  "(TileSlice \<Rightarrow> nat) \<Rightarrow> ReshardingTaskSpec \<Rightarrow> Loads \<Rightarrow> error + (ReshardingStrategy \<times> Loads)" where
  "generate_send_recv_resharding_strategy_by_loads slice_size spec self =
     (let is_local_allgather' = (allgather_slice spec \<noteq> None)
      in ebind (dst_tile_to_src_tiles_map spec) (\<lambda>m.
         ebind (plans_loop slice_size m self) (\<lambda>(plans, self').
         Inr (\<lparr>per_spec_plans = plans, is_local_allgather = is_local_allgather'\<rparr>, self'))))"

text \<open>
  The loops of the constructor of the communicator over the task specs, in the order in
  which \<open>task_spec_iter\<close> and the maps give them:
  \<^verbatim>\<open>
  for _, _, var_spec_map in self.task_spec_iter():
      for _, spec in var_spec_map.items():
          strategy = self._generate_send_recv_resharding_strategy_by_loads(
              spec)
          spec.set_resharding_strategy(strategy)
  \<close>
  \<open>strategies_loop\<close> is the loop for a list of specs: it gives the specs with their
  strategies set, and the counters afterwards.
\<close>

fun strategies_loop ::
  "(TileSlice \<Rightarrow> nat) \<Rightarrow> ReshardingTaskSpec list \<Rightarrow> Loads
     \<Rightarrow> error + (ReshardingTaskSpec list \<times> Loads)" where
  "strategies_loop slice_size [] self = Inr ([], self)"
| "strategies_loop slice_size (spec # rest) self =
     (case generate_send_recv_resharding_strategy_by_loads slice_size spec self of
        Inl e \<Rightarrow> Inl e
      | Inr (strategy', self') \<Rightarrow>
          (case strategies_loop slice_size rest self' of
             Inl e \<Rightarrow> Inl e
           | Inr (specs, self'') \<Rightarrow>
               Inr (set_resharding_strategy spec strategy' # specs, self'')))"

text \<open>
  \<^verbatim>\<open>
  self._sender_loads = {
      device_str: 0 for mesh in self._schedule.meshes
      for device_str in mesh.device_strs
  }
  self._receiver_loads = {
      device_str: 0 for mesh in self._schedule.meshes
      for device_str in mesh.device_strs
  }
  \<close>
\<close>

definition zero_loads :: "Mesh list \<Rightarrow> (string, nat) dict" where
  "zero_loads meshes' =
     foldl (\<lambda>d device_str. dict_set d device_str 0) [] (concat (map device_strs meshes'))"

definition Loads_init :: "Schedule \<Rightarrow> Loads" where
  "Loads_init schedule =
     \<lparr>sender_loads = zero_loads (meshes schedule),
      receiver_loads = zero_loads (meshes schedule)\<rparr>"

text \<open>
  \<^verbatim>\<open>
  def __init__(self, sharded_stages, schedule):
      ...
      # Initialize all resharding specs
      self._create_resharding_specs()
      # Generate a send/recv strategies for all resharding tasks by looking at their load.
      for _, _, var_spec_map in self.task_spec_iter():
          for _, spec in var_spec_map.items():
              ...
  \<close>
  The result of the constructor: the specs in the order of the loops, with their
  strategies, and the counters.
\<close>

definition CrossMeshCommunicator_init ::
  "GlobalConfig \<Rightarrow> (Mesh \<Rightarrow> ShapedArray \<Rightarrow> ShardingSpec \<Rightarrow> VirtualDistributedArray)
     \<Rightarrow> (TileSlice \<Rightarrow> nat) \<Rightarrow> Stage list \<Rightarrow> Schedule
     \<Rightarrow> error + (ReshardingTaskSpec list \<times> Loads)" where
  "CrossMeshCommunicator_init global_config new_array slice_size sharded_stages schedule =
     ebind (create_resharding_specs global_config new_array sharded_stages schedule) (\<lambda>specs.
     ebind (task_spec_iter (num_mesh schedule) specs) (\<lambda>entries.
     strategies_loop slice_size
       (concat (map (\<lambda>(i, j, var_spec_map). dict_values var_spec_map) entries))
       (Loads_init schedule)))"

subsection \<open>The strategy in the words of the specification\<close>

text \<open>The current load of a device in a counter.\<close>

definition load_of :: "(string, nat) dict \<Rightarrow> string \<Rightarrow> nat" where
  "load_of d s = (case map_of d s of Some l \<Rightarrow> l | None \<Rightarrow> 0)"

text \<open>
  The sender the specification asks for: the first replica holder of the slice, in the
  order of \<open>replica_device_strs\<close>, whose send load is minimal among the replica holders.
\<close>

definition first_min_holder :: "(string, nat) dict \<Rightarrow> string list \<Rightarrow> string option" where
  "first_min_holder sender_loads' holders =
     find (\<lambda>s. \<forall>s'\<in>set holders. load_of sender_loads' s \<le> load_of sender_loads' s') holders"

text \<open>
  The pairs of a receiver and a source tile slice for which a sender is chosen, in the
  order in which the loops visit them: destination tiles in the order of the map, then
  the replicas of the tile, then its source tile slices.
\<close>

definition choices_of ::
  "(Tile \<times> TileSlice list \<times> pyslice list list) list \<Rightarrow> (string \<times> TileSlice) list" where
  "choices_of m =
     concat (map (\<lambda>(dst_tile, src_tileslices, ixs).
               concat (map (\<lambda>receiver. map (\<lambda>s. (receiver, s)) src_tileslices)
                         (replica_device_strs dst_tile))) m)"

text \<open>A sequence of assignments, each made by the body of the innermost loop from the
  counters that the one before it left.\<close>

fun run_assignments ::
  "(TileSlice \<Rightarrow> nat) \<Rightarrow> (string \<times> TileSlice) list \<Rightarrow> Loads \<Rightarrow> error + (string list \<times> Loads)" where
  "run_assignments slice_size [] self = Inr ([], self)"
| "run_assignments slice_size ((receiver, src_tileslice) # rest) self =
     (case assign_sender slice_size receiver src_tileslice self of
        Inl e \<Rightarrow> Inl e
      | Inr (sender, self') \<Rightarrow>
          (case run_assignments slice_size rest self' of
             Inl e \<Rightarrow> Inl e
           | Inr (senders, self'') \<Rightarrow> Inr (sender # senders, self'')))"

text \<open>
  The counter in which the load of a device is increased by an amount; the loads of the
  other devices and the order of the devices stay as they are.
\<close>

definition add_load :: "(string, nat) dict \<Rightarrow> string \<Rightarrow> nat \<Rightarrow> (string, nat) dict" where
  "add_load d s v = dict_set d s (load_of d s + v)"

text \<open>
  One greedy choice, as the specification words it: the sender is the first replica holder
  with minimal send load, and the size of the slice is added to the send load of the
  sender and to the receive load of the receiver. There is no choice when the slice has
  no replica holder.
\<close>

definition greedy_step ::
  "(TileSlice \<Rightarrow> nat) \<Rightarrow> string \<Rightarrow> TileSlice \<Rightarrow> Loads \<Rightarrow> (string \<times> Loads) option" where
  "greedy_step slice_size receiver src_tileslice st =
     (case first_min_holder (sender_loads st) (replica_device_strs src_tileslice) of
        None \<Rightarrow> None
      | Some sender \<Rightarrow>
          Some (sender,
                \<lparr>sender_loads = add_load (sender_loads st) sender (slice_size src_tileslice),
                 receiver_loads =
                   add_load (receiver_loads st) receiver (slice_size src_tileslice)\<rparr>))"

text \<open>The greedy choices for a list of pairs of receiver and slice, each made from the
  counters that the one before it left: the chosen senders and the counters at the end.\<close>

fun greedy_run ::
  "(TileSlice \<Rightarrow> nat) \<Rightarrow> (string \<times> TileSlice) list \<Rightarrow> Loads \<Rightarrow> (string list \<times> Loads) option" where
  "greedy_run slice_size [] st = Some ([], st)"
| "greedy_run slice_size ((receiver, src_tileslice) # rest) st =
     (case greedy_step slice_size receiver src_tileslice st of
        None \<Rightarrow> None
      | Some (sender, st') \<Rightarrow>
          (case greedy_run slice_size rest st' of
             None \<Rightarrow> None
           | Some (senders, st'') \<Rightarrow> Some (sender # senders, st'')))"

text \<open>
  The counters cover a list of pairs of receiver and slice: every slice has a replica
  holder, every replica holder has a send counter and every receiver has a receive
  counter. The constructor of the communicator makes both counters for every device of
  every mesh of the schedule.
\<close>

definition counters_cover :: "(string \<times> TileSlice) list \<Rightarrow> Loads \<Rightarrow> bool" where
  "counters_cover choices st \<longleftrightarrow>
     (\<forall>(receiver, src_tileslice)\<in>set choices.
        replica_device_strs src_tileslice \<noteq> [] \<and>
        (\<forall>h\<in>set (replica_device_strs src_tileslice). map_of (sender_loads st) h \<noteq> None) \<and>
        map_of (receiver_loads st) receiver \<noteq> None)"

text \<open>
  The shape of the plans of a spec: one plan for each destination tile of the map, with
  one row for each replica of the tile and one entry for each of its source tile slices
  (\<^verbatim>\<open>np.empty((len(dst_tile.replica_device_strs), len(src_tileslices)))\<close>).
\<close>

definition plan_shape ::
  "(Tile \<times> TileSlice list \<times> pyslice list list) list \<Rightarrow> string list list list \<Rightarrow> bool" where
  "plan_shape m plans \<longleftrightarrow>
     list_all2 (\<lambda>(dst_tile, src_tileslices, ixs) plan.
                  length plan = length (replica_device_strs dst_tile) \<and>
                  (\<forall>row\<in>set plan. length row = length src_tileslices)) m plans"

text \<open>The senders of a strategy, read tile by tile, replica by replica and slice by
  slice.\<close>

definition flat_plans :: "ReshardingStrategy \<Rightarrow> string list" where
  "flat_plans y = concat (concat (per_spec_plans y))"

text \<open>The loads of the senders \<open>S\<close> differ by at most \<open>V\<close>.\<close>

definition balanced :: "nat \<Rightarrow> string set \<Rightarrow> (string, nat) dict \<Rightarrow> bool" where
  "balanced V S d \<longleftrightarrow> (\<forall>x\<in>S. \<forall>y\<in>S. load_of d x \<le> load_of d y + V)"

text \<open>
  The number of elements of the offset of a tile slice, as the size of the slice, and the
  counters of a communicator over the mesh of two hosts and the mesh of one device.
\<close>

definition offset_volume :: "TileSlice \<Rightarrow> nat" where
  "offset_volume s =
     prod_list (map (\<lambda>sl. case sl of
                            Slice (Some lo) (Some hi) \<Rightarrow> nat (hi - lo)
                          | _ \<Rightarrow> 0) (offset s))"

definition loads_zero :: Loads where
  "loads_zero =
     \<lparr>sender_loads = zero_loads [mesh_2x2, mesh_1x1],
      receiver_loads = zero_loads [mesh_2x2, mesh_1x1]\<rparr>"

text \<open>The spec of the 4 x 4 array with the map of its one destination tile \<open>[0:4, 0:4]\<close>:
  the upper and the lower half, each held by two devices.\<close>

definition slice_upper :: TileSlice where
  "slice_upper =
     TileSlice_init (new_tile [(0, 2), (0, 4)] [''c:0'', ''c:1''])
       [Slice (Some 0) (Some 2), Slice (Some 0) (Some 4)]"

definition slice_lower :: TileSlice where
  "slice_lower =
     TileSlice_init (new_tile [(2, 4), (0, 4)] [''d:0'', ''d:1''])
       [Slice (Some 0) (Some 2), Slice (Some 0) (Some 4)]"

definition map_4x4 :: "(Tile \<times> TileSlice list \<times> pyslice list list) list" where
  "map_4x4 =
     [(new_tile [(0, 4), (0, 4)] [''a:0''], [slice_upper, slice_lower],
       [[Slice (Some 0) (Some 2), Slice (Some 0) (Some 4)],
        [Slice (Some 2) (Some 4), Slice (Some 0) (Some 4)]])]"

definition loads_after_one :: Loads where
  "loads_after_one =
     \<lparr>sender_loads = [(''c:0'', 8), (''c:1'', 0), (''d:0'', 8), (''d:1'', 0), (''a:0'', 0)],
      receiver_loads = [(''c:0'', 0), (''c:1'', 0), (''d:0'', 0), (''d:1'', 0), (''a:0'', 16)]\<rparr>"

definition loads_after_two :: Loads where
  "loads_after_two =
     \<lparr>sender_loads = [(''c:0'', 8), (''c:1'', 8), (''d:0'', 8), (''d:1'', 8), (''a:0'', 0)],
      receiver_loads = [(''c:0'', 0), (''c:1'', 0), (''d:0'', 0), (''d:1'', 0), (''a:0'', 32)]\<rparr>"

text \<open>Three assignments of the upper half to the device of the mesh of one device, and
  the counters after them.\<close>

definition choices_upper :: "(string \<times> TileSlice) list" where
  "choices_upper = [(''a:0'', slice_upper), (''a:0'', slice_upper), (''a:0'', slice_upper)]"

definition loads_after_three :: Loads where
  "loads_after_three =
     \<lparr>sender_loads = [(''c:0'', 16), (''c:1'', 8), (''d:0'', 0), (''d:1'', 0), (''a:0'', 0)],
      receiver_loads = [(''c:0'', 0), (''c:1'', 0), (''d:0'', 0), (''d:1'', 0), (''a:0'', 24)]\<rparr>"

subsection \<open>Compiling the send and receive tasks\<close>

text \<open>
  \<^verbatim>\<open>
  def _indices_in_dst_post_allgather(self, indices, receiver):
      if self.task_spec.allgather_slice is None:
          return indices
      tensor_axis, mesh_axis, _ = self.task_spec.allgather_slice
      _, offset, _, dst_mesh_shape = self._allgather_receiver_step_and_offset(
          receiver)
      allgather_dim_size = (self.task_spec.aval.shape[tensor_axis] //
                            dst_mesh_shape[mesh_axis])
      indices = list(indices)
      indices[tensor_axis] = slice(
          offset * allgather_dim_size + indices[tensor_axis].start,
          offset * allgather_dim_size + indices[tensor_axis].stop, None)
      shape = self.task_spec.aval.shape
      for idx, tensor_slice in enumerate(indices):
          if tensor_slice.start is None:
              assert tensor_slice.stop is None
              indices[idx] = slice(0, shape[idx], None)
      return indices
  \<close>
  Adding \<^verbatim>\<open>None\<close> to an integer raises TypeError.
\<close>

fun fill_full_slices :: "int list \<Rightarrow> nat \<Rightarrow> pyslice list \<Rightarrow> error + pyslice list" where
  "fill_full_slices dims idx [] = Inr []"
| "fill_full_slices dims idx (tensor_slice # rest) =
     (case (case start tensor_slice of
              None \<Rightarrow>
                ebind (py_assert (stop tensor_slice = None)) (\<lambda>_.
                ebind (list_get dims idx) (\<lambda>n. Inr (Slice (Some 0) (Some n))))
            | Some _ \<Rightarrow> Inr tensor_slice) of
        Inl e \<Rightarrow> Inl e
      | Inr s \<Rightarrow>
          (case fill_full_slices dims (Suc idx) rest of
             Inl e \<Rightarrow> Inl e
           | Inr ss \<Rightarrow> Inr (s # ss)))"

definition indices_in_dst_post_allgather ::
  "SymbolicReshardingTask \<Rightarrow> pyslice list \<Rightarrow> string \<Rightarrow> error + pyslice list" where
  "indices_in_dst_post_allgather self indices' receiver =
     (case allgather_slice (task_spec self) of
        None \<Rightarrow> Inr indices'
      | Some (tensor_axis, mesh_axis, _) \<Rightarrow>
          ebind (allgather_receiver_step_and_offset self receiver) (\<lambda>(_, offset', _, dst_mesh_shape).
          ebind (list_get (shape (task_aval (task_spec self))) tensor_axis) (\<lambda>d.
          ebind (list_get dst_mesh_shape mesh_axis) (\<lambda>n.
          ebind (py_floordiv d n) (\<lambda>allgather_dim_size.
          ebind (list_get indices' tensor_axis) (\<lambda>sl.
          case start sl of
            None \<Rightarrow> Inl TypeError
          | Some a \<Rightarrow>
              (case stop sl of
                 None \<Rightarrow> Inl TypeError
               | Some b \<Rightarrow>
                   fill_full_slices (shape (task_aval (task_spec self))) 0
                     (indices'[tensor_axis :=
                        Slice (Some (offset' * allgather_dim_size + a))
                              (Some (offset' * allgather_dim_size + b))]))))))))"

text \<open>
  \<^verbatim>\<open>
  senders = [
      spec_plan[replica_index][src_tile_index]
      for src_tile_index, _ in enumerate(src_tiles)
  ]
  \<close>
\<close>

fun plan_senders :: "string list list \<Rightarrow> nat \<Rightarrow> nat list \<Rightarrow> error + string list" where
  "plan_senders spec_plan replica_index [] = Inr []"
| "plan_senders spec_plan replica_index (src_tile_index # rest) =
     (case ebind (list_get spec_plan replica_index) (\<lambda>row. list_get row src_tile_index) of
        Inl e \<Rightarrow> Inl e
      | Inr sender \<Rightarrow>
          (case plan_senders spec_plan replica_index rest of
             Inl e \<Rightarrow> Inl e
           | Inr senders \<Rightarrow> Inr (sender # senders)))"

text \<open>
  The loop over the senders of one receiver:
  \<^verbatim>\<open>
  recv_tile_specs = []
  for sender_idx, sender in enumerate(senders):
      # Sender's task
      sender_worker = self.collective_group.device_str_to_mesh_worker_map[
          sender]
      self._sender_tasks[sender_worker].append(
          ReshardingTileSpec(src_tiles[sender_idx].offset,
                             receiver_rank, receiver_gpu_idx))
      self.sender_uuid_plan.append(sender)
      # Receiver's task
      sender_rank, sender_gpu_idx = (
          self.collective_group.device_str_to_rank_map[sender])
      indices_in_dst_tile = self._indices_in_dst_post_allgather(
          indices_in_dst_tiles[sender_idx], receiver)
      recv_tile_specs.append(
          ReshardingTileSpec(indices_in_dst_tile, sender_rank,
                             sender_gpu_idx))
  \<close>
  The state of the loop is the task and the list \<^verbatim>\<open>recv_tile_specs\<close>.
\<close>

fun senders_loop ::
  "string \<Rightarrow> nat \<Rightarrow> nat \<Rightarrow> TileSlice list \<Rightarrow> pyslice list list \<Rightarrow> nat \<Rightarrow> string list
     \<Rightarrow> SymbolicReshardingTask \<times> ReshardingTileSpec list
     \<Rightarrow> error + (SymbolicReshardingTask \<times> ReshardingTileSpec list)" where
  "senders_loop receiver receiver_rank receiver_gpu_idx src_tiles indices_in_dst_tiles
       sender_idx [] state = Inr state"
| "senders_loop receiver receiver_rank receiver_gpu_idx src_tiles indices_in_dst_tiles
       sender_idx (sender # rest) (self, recv_tile_specs) =
     (case dict_get (device_str_to_mesh_worker_map (collective_group self)) sender of
        Inl e \<Rightarrow> Inl e
      | Inr sender_worker \<Rightarrow>
     (case dict_get (sender_tasks self) sender_worker of
        Inl e \<Rightarrow> Inl e
      | Inr entries \<Rightarrow>
     (case list_get src_tiles sender_idx of
        Inl e \<Rightarrow> Inl e
      | Inr src_tile \<Rightarrow>
     (case dict_get (device_str_to_rank_map (collective_group self)) sender of
        Inl e \<Rightarrow> Inl e
      | Inr (sender_rank, sender_gpu_idx) \<Rightarrow>
     (case ebind (list_get indices_in_dst_tiles sender_idx) (\<lambda>ix.
             indices_in_dst_post_allgather self ix receiver) of
        Inl e \<Rightarrow> Inl e
      | Inr indices_in_dst_tile \<Rightarrow>
          senders_loop receiver receiver_rank receiver_gpu_idx src_tiles indices_in_dst_tiles
            (Suc sender_idx) rest
            (self\<lparr>sender_tasks :=
                     dict_set (sender_tasks self) sender_worker
                       (entries @ [\<lparr>spec_offset = offset src_tile, rank = receiver_rank,
                                     gpu_idx = receiver_gpu_idx\<rparr>]),
                   sender_uuid_plan := sender_uuid_plan self @ [sender]\<rparr>,
             recv_tile_specs @ [\<lparr>spec_offset = indices_in_dst_tile, rank = sender_rank,
                                  gpu_idx = sender_gpu_idx\<rparr>]))))))"

text \<open>
  The loop over the replicas of one destination tile:
  \<^verbatim>\<open>
  for replica_index, receiver in enumerate(
          dst_tile.replica_device_strs):
      # Get args for an empty buffer
      receiver_device_id = (
          self.collective_group.device_str_to_device_id_map[receiver])
      receiver_worker = (self.collective_group.
                         device_str_to_mesh_worker_map[receiver])
      dtype = self.task_spec.src.aval.dtype
      # Get args for send/recv
      senders = [...]
      self.receiver_uuid_plan.append(receiver)
      receiver_rank, receiver_gpu_idx = (
          self.collective_group.device_str_to_rank_map[receiver])
      recv_tile_specs = []
      for sender_idx, sender in enumerate(senders):
          ...
      receiver_task = ReshardingRecvSpec(receiver_device_id,
                                         dst_tile.tile_shape, dtype,
                                         recv_tile_specs)
      self._receiver_tasks[receiver_worker].append(receiver_task)
  \<close>
\<close>

fun replicas_loop ::
  "Tile \<Rightarrow> TileSlice list \<Rightarrow> pyslice list list \<Rightarrow> string list list \<Rightarrow> nat \<Rightarrow> string list
     \<Rightarrow> SymbolicReshardingTask \<Rightarrow> error + SymbolicReshardingTask" where
  "replicas_loop dst_tile src_tiles indices_in_dst_tiles spec_plan replica_index [] self =
     Inr self"
| "replicas_loop dst_tile src_tiles indices_in_dst_tiles spec_plan replica_index
       (receiver # rest) self =
     (case dict_get (device_str_to_device_id_map (collective_group self)) receiver of
        Inl e \<Rightarrow> Inl e
      | Inr receiver_device_id \<Rightarrow>
     (case dict_get (device_str_to_mesh_worker_map (collective_group self)) receiver of
        Inl e \<Rightarrow> Inl e
      | Inr receiver_worker \<Rightarrow>
     (case plan_senders spec_plan replica_index [0..<length src_tiles] of
        Inl e \<Rightarrow> Inl e
      | Inr senders \<Rightarrow>
     (case dict_get (device_str_to_rank_map (collective_group self)) receiver of
        Inl e \<Rightarrow> Inl e
      | Inr (receiver_rank, receiver_gpu_idx) \<Rightarrow>
     (case senders_loop receiver receiver_rank receiver_gpu_idx src_tiles indices_in_dst_tiles
             0 senders
             (self\<lparr>receiver_uuid_plan := receiver_uuid_plan self @ [receiver]\<rparr>, []) of
        Inl e \<Rightarrow> Inl e
      | Inr (self1, recv_tile_specs) \<Rightarrow>
     (case dict_get (receiver_tasks self1) receiver_worker of
        Inl e \<Rightarrow> Inl e
      | Inr tasks \<Rightarrow>
          replicas_loop dst_tile src_tiles indices_in_dst_tiles spec_plan (Suc replica_index)
            rest
            (self1\<lparr>receiver_tasks :=
                      dict_set (receiver_tasks self1) receiver_worker
                        (tasks @ [\<lparr>device_id = receiver_device_id,
                                    recv_shape = tile_shape dst_tile,
                                    recv_dtype = dtype (aval (src (task_spec self1))),
                                    tile_specs = recv_tile_specs\<rparr>])\<rparr>)))))))"

text \<open>
  \<^verbatim>\<open>
  def _compile_send_recv_tasks(self):
      for i, (dst_tile, src_tiles, indices_in_dst_tiles) in enumerate(
              self.task_spec.dst_tile_to_src_tiles_map):
          spec_plan = self.task_spec.strategy.per_spec_plans[i]
          for replica_index, receiver in enumerate(
                  dst_tile.replica_device_strs):
              ...
  \<close>
\<close>

fun tiles_loop ::
  "nat \<Rightarrow> (Tile \<times> TileSlice list \<times> pyslice list list) list \<Rightarrow> SymbolicReshardingTask
     \<Rightarrow> error + SymbolicReshardingTask" where
  "tiles_loop i [] self = Inr self"
| "tiles_loop i ((dst_tile, src_tiles, indices_in_dst_tiles) # rest) self =
     (case ebind (fst (strategy (task_spec self))) (\<lambda>y. list_get (per_spec_plans y) i) of
        Inl e \<Rightarrow> Inl e
      | Inr spec_plan \<Rightarrow>
          (case replicas_loop dst_tile src_tiles indices_in_dst_tiles spec_plan 0
                  (replica_device_strs dst_tile) self of
             Inl e \<Rightarrow> Inl e
           | Inr self' \<Rightarrow> tiles_loop (Suc i) rest self'))"

definition compile_send_recv_tasks :: "SymbolicReshardingTask \<Rightarrow> error + SymbolicReshardingTask" where
  "compile_send_recv_tasks self =
     ebind (dst_tile_to_src_tiles_map (task_spec self)) (\<lambda>m. tiles_loop 0 m self)"

text \<open>
  The entries of a worker: its list in \<^verbatim>\<open>_sender_tasks\<close>, and the tile specs of its
  receive tasks in \<^verbatim>\<open>_receiver_tasks\<close>, one task after the other.
\<close>

definition send_entries :: "SymbolicReshardingTask \<Rightarrow> worker \<Rightarrow> ReshardingTileSpec list" where
  "send_entries self w = (case map_of (sender_tasks self) w of Some l \<Rightarrow> l | None \<Rightarrow> [])"

definition recv_entries :: "SymbolicReshardingTask \<Rightarrow> worker \<Rightarrow> ReshardingTileSpec list" where
  "recv_entries self w =
     concat (map tile_specs (case map_of (receiver_tasks self) w of Some l \<Rightarrow> l | None \<Rightarrow> []))"

text \<open>
  A transfer: the sending device, the receiving device, the entry of the sender and the
  tile spec of the receiver. In a list of transfers of a collective group, every device
  has a worker and a rank, the entry of the sender carries the rank and the device index
  of the receiver, and the tile spec of the receiver carries those of the sender.
\<close>

type_synonym transfer = "string \<times> string \<times> ReshardingTileSpec \<times> ReshardingTileSpec"

definition transfer_paired :: "CollectiveGroup \<Rightarrow> transfer \<Rightarrow> bool" where
  "transfer_paired g t =
     (case t of (sender, receiver, send_entry, recv_entry) \<Rightarrow>
        map_of (device_str_to_mesh_worker_map g) sender \<noteq> None \<and>
        map_of (device_str_to_mesh_worker_map g) receiver \<noteq> None \<and>
        map_of (device_str_to_rank_map g) receiver = Some (rank send_entry, gpu_idx send_entry) \<and>
        map_of (device_str_to_rank_map g) sender = Some (rank recv_entry, gpu_idx recv_entry))"

definition sent_by :: "CollectiveGroup \<Rightarrow> worker \<Rightarrow> transfer list \<Rightarrow> ReshardingTileSpec list" where
  "sent_by g w ts =
     map (\<lambda>(sender, receiver, send_entry, recv_entry). send_entry)
       (filter (\<lambda>(sender, receiver, send_entry, recv_entry).
                  map_of (device_str_to_mesh_worker_map g) sender = Some w) ts)"

definition received_by :: "CollectiveGroup \<Rightarrow> worker \<Rightarrow> transfer list \<Rightarrow> ReshardingTileSpec list" where
  "received_by g w ts =
     map (\<lambda>(sender, receiver, send_entry, recv_entry). recv_entry)
       (filter (\<lambda>(sender, receiver, send_entry, recv_entry).
                  map_of (device_str_to_mesh_worker_map g) receiver = Some w) ts)"

subsection \<open>The transfers of a task, in the words of the specification\<close>

text \<open>
  The rank (worker rank and device index) and the device id of a device in a collective
  group. A device without an entry is given zeros here; that every device of a transfer
  has its entries is part of what is proved.
\<close>

definition rank_of :: "CollectiveGroup \<Rightarrow> string \<Rightarrow> nat \<times> nat" where
  "rank_of g d = (case map_of (device_str_to_rank_map g) d of Some r \<Rightarrow> r | None \<Rightarrow> (0, 0))"

definition device_id_of :: "CollectiveGroup \<Rightarrow> string \<Rightarrow> nat" where
  "device_id_of g d = (case map_of (device_str_to_device_id_map g) d of Some i \<Rightarrow> i | None \<Rightarrow> 0)"

text \<open>The indices that \<^verbatim>\<open>_indices_in_dst_post_allgather\<close> returns, and the indices it was
  given where it raises.\<close>

definition post_allgather_indices ::
  "SymbolicReshardingTask \<Rightarrow> pyslice list \<Rightarrow> string \<Rightarrow> pyslice list" where
  "post_allgather_indices self ix receiver =
     (case indices_in_dst_post_allgather self ix receiver of Inr ix' \<Rightarrow> ix' | Inl e \<Rightarrow> ix)"

text \<open>
  The transfer of the source tile slice at place \<open>k\<close> to a replica \<open>receiver\<close> when
  \<open>sender\<close> is the device that the strategy names for it: the entry of the sender is the
  offset of the slice with the rank and the device index of the receiver, the tile spec
  of the receiver is the indices in the destination tile with the rank and the device
  index of the sender.
\<close>

definition transfer_of ::
  "SymbolicReshardingTask \<Rightarrow> TileSlice list \<Rightarrow> pyslice list list \<Rightarrow> string \<Rightarrow> nat \<times> string
     \<Rightarrow> transfer" where
  "transfer_of self src_tiles ixs receiver =
     (\<lambda>(k, sender).
        (sender, receiver,
         \<lparr>spec_offset = offset (src_tiles ! k),
          rank = fst (rank_of (collective_group self) receiver),
          gpu_idx = snd (rank_of (collective_group self) receiver)\<rparr>,
         \<lparr>spec_offset = post_allgather_indices self (ixs ! k) receiver,
          rank = fst (rank_of (collective_group self) sender),
          gpu_idx = snd (rank_of (collective_group self) sender)\<rparr>))"

text \<open>
  The transfers to one replica, slice by slice; those of a destination tile, replica by
  replica; and those of the task, tile by tile. \<open>plans ! i ! j ! k\<close> is the sender that the
  strategy names for slice \<open>k\<close> of replica \<open>j\<close> of tile \<open>i\<close>
  (\<^verbatim>\<open>self.task_spec.strategy.per_spec_plans[i][replica_index][src_tile_index]\<close>).
\<close>

definition transfers_of_receiver ::
  "SymbolicReshardingTask \<Rightarrow> TileSlice list \<Rightarrow> pyslice list list \<Rightarrow> string list \<Rightarrow> string
     \<Rightarrow> transfer list" where
  "transfers_of_receiver self src_tiles ixs row receiver =
     map (transfer_of self src_tiles ixs receiver) (enumerate 0 (take (length src_tiles) row))"

definition transfers_of_tile ::
  "SymbolicReshardingTask \<Rightarrow> Tile \<times> TileSlice list \<times> pyslice list list \<Rightarrow> string list list
     \<Rightarrow> transfer list" where
  "transfers_of_tile self x plan =
     (case x of (dst_tile, src_tiles, ixs) \<Rightarrow>
        concat (map (\<lambda>(j, receiver). transfers_of_receiver self src_tiles ixs (plan ! j) receiver)
                  (enumerate 0 (replica_device_strs dst_tile))))"

definition transfers_of ::
  "SymbolicReshardingTask \<Rightarrow> (Tile \<times> TileSlice list \<times> pyslice list list) list
     \<Rightarrow> string list list list \<Rightarrow> transfer list" where
  "transfers_of self m plans =
     concat (map (\<lambda>(i, x). transfers_of_tile self x (plans ! i)) (enumerate 0 m))"

text \<open>The entry of the sender and the tile spec of the receiver of a transfer.\<close>

definition send_entry_of :: "transfer \<Rightarrow> ReshardingTileSpec" where
  "send_entry_of t = (case t of (sender, receiver, send_entry, recv_entry) \<Rightarrow> send_entry)"

definition recv_entry_of :: "transfer \<Rightarrow> ReshardingTileSpec" where
  "recv_entry_of t = (case t of (sender, receiver, send_entry, recv_entry) \<Rightarrow> recv_entry)"

text \<open>
  The receive task of a replica: the device id of the replica, the shape of the
  destination tile, the dtype, and the tile specs of the transfers to the replica. Those
  of a destination tile and of the task are listed with the replica they are for.
\<close>

definition recv_task_of ::
  "SymbolicReshardingTask \<Rightarrow> Tile \<Rightarrow> TileSlice list \<Rightarrow> pyslice list list \<Rightarrow> string list
     \<Rightarrow> string \<Rightarrow> ReshardingRecvSpec" where
  "recv_task_of self dst_tile src_tiles ixs row receiver =
     \<lparr>device_id = device_id_of (collective_group self) receiver,
      recv_shape = tile_shape dst_tile,
      recv_dtype = dtype (aval (src (task_spec self))),
      tile_specs = map recv_entry_of (transfers_of_receiver self src_tiles ixs row receiver)\<rparr>"

definition recv_tasks_of_tile ::
  "SymbolicReshardingTask \<Rightarrow> Tile \<times> TileSlice list \<times> pyslice list list \<Rightarrow> string list list
     \<Rightarrow> (string \<times> ReshardingRecvSpec) list" where
  "recv_tasks_of_tile self x plan =
     (case x of (dst_tile, src_tiles, ixs) \<Rightarrow>
        map (\<lambda>(j, receiver).
               (receiver, recv_task_of self dst_tile src_tiles ixs (plan ! j) receiver))
          (enumerate 0 (replica_device_strs dst_tile)))"

definition recv_tasks_of ::
  "SymbolicReshardingTask \<Rightarrow> (Tile \<times> TileSlice list \<times> pyslice list list) list
     \<Rightarrow> string list list list \<Rightarrow> (string \<times> ReshardingRecvSpec) list" where
  "recv_tasks_of self m plans =
     concat (map (\<lambda>(i, x). recv_tasks_of_tile self x (plans ! i)) (enumerate 0 m))"

text \<open>The receive tasks of a worker in \<^verbatim>\<open>_receiver_tasks\<close>, and the receive tasks of a list
  that are for the devices of a worker.\<close>

definition recv_tasks :: "SymbolicReshardingTask \<Rightarrow> worker \<Rightarrow> ReshardingRecvSpec list" where
  "recv_tasks self w = (case map_of (receiver_tasks self) w of Some l \<Rightarrow> l | None \<Rightarrow> [])"

definition tasks_received_by ::
  "CollectiveGroup \<Rightarrow> worker \<Rightarrow> (string \<times> ReshardingRecvSpec) list \<Rightarrow> ReshardingRecvSpec list" where
  "tasks_received_by g w rts =
     map snd (filter (\<lambda>(receiver, task).
                        map_of (device_str_to_mesh_worker_map g) receiver = Some w) rts)"

text \<open>The plans of the strategy of a task spec; none when no strategy is set.\<close>

definition plans_of :: "ReshardingTaskSpec \<Rightarrow> string list list list" where
  "plans_of spec = (case strategy_field spec of Some y \<Rightarrow> per_spec_plans y | None \<Rightarrow> [])"

text \<open>
  The workers of a transfer, and the place of a transfer among the transfers from the
  same sender worker and among the transfers to the same receiver worker: the number of
  earlier transfers with that worker.
\<close>

definition sender_worker :: "CollectiveGroup \<Rightarrow> transfer \<Rightarrow> worker option" where
  "sender_worker g t = map_of (device_str_to_mesh_worker_map g) (fst t)"

definition receiver_worker :: "CollectiveGroup \<Rightarrow> transfer \<Rightarrow> worker option" where
  "receiver_worker g t = map_of (device_str_to_mesh_worker_map g) (fst (snd t))"

definition send_position :: "CollectiveGroup \<Rightarrow> transfer list \<Rightarrow> nat \<Rightarrow> nat" where
  "send_position g ts p =
     length (filter (\<lambda>t. sender_worker g t = sender_worker g (ts ! p)) (take p ts))"

definition recv_position :: "CollectiveGroup \<Rightarrow> transfer list \<Rightarrow> nat \<Rightarrow> nat" where
  "recv_position g ts p =
     length (filter (\<lambda>t. receiver_worker g t = receiver_worker g (ts ! p)) (take p ts))"

text \<open>
  What the loops look up. For a sender: the indices in the destination tile at its place,
  its rank, its worker, the list of that worker in \<^verbatim>\<open>_sender_tasks\<close>, and the indices after
  the allgather. For a replica: its device id, its rank, its worker, the list of that
  worker in \<^verbatim>\<open>_receiver_tasks\<close>, a row of the plan with a sender for every slice, and what
  is looked up for each of these senders. For a destination tile: a plan, and what is
  looked up for each replica. A task is ready when the map of its spec is there and this
  holds for every destination tile.
\<close>

definition sender_ready ::
  "SymbolicReshardingTask \<Rightarrow> pyslice list list \<Rightarrow> string \<Rightarrow> nat \<times> string \<Rightarrow> bool" where
  "sender_ready self ixs receiver =
     (\<lambda>(k, sender).
        k < length ixs \<and>
        map_of (device_str_to_rank_map (collective_group self)) sender \<noteq> None \<and>
        (case map_of (device_str_to_mesh_worker_map (collective_group self)) sender of
           None \<Rightarrow> False
         | Some w \<Rightarrow> map_of (sender_tasks self) w \<noteq> None) \<and>
        (case indices_in_dst_post_allgather self (ixs ! k) receiver of
           Inl e \<Rightarrow> False
         | Inr ix \<Rightarrow> True))"

definition receiver_ready ::
  "SymbolicReshardingTask \<Rightarrow> TileSlice list \<Rightarrow> pyslice list list \<Rightarrow> string list list
     \<Rightarrow> nat \<times> string \<Rightarrow> bool" where
  "receiver_ready self src_tiles ixs plan =
     (\<lambda>(j, receiver).
        map_of (device_str_to_device_id_map (collective_group self)) receiver \<noteq> None \<and>
        map_of (device_str_to_rank_map (collective_group self)) receiver \<noteq> None \<and>
        (case map_of (device_str_to_mesh_worker_map (collective_group self)) receiver of
           None \<Rightarrow> False
         | Some w \<Rightarrow> map_of (receiver_tasks self) w \<noteq> None) \<and>
        j < length plan \<and> length src_tiles \<le> length (plan ! j) \<and>
        (\<forall>x\<in>set (enumerate 0 (take (length src_tiles) (plan ! j))).
           sender_ready self ixs receiver x))"

definition tile_ready ::
  "SymbolicReshardingTask \<Rightarrow> string list list list
     \<Rightarrow> nat \<times> Tile \<times> TileSlice list \<times> pyslice list list \<Rightarrow> bool" where
  "tile_ready self plans =
     (\<lambda>(i, dst_tile, src_tiles, ixs).
        i < length plans \<and>
        (\<forall>x\<in>set (enumerate 0 (replica_device_strs dst_tile)).
           receiver_ready self src_tiles ixs (plans ! i) x))"

definition task_ready :: "SymbolicReshardingTask \<Rightarrow> bool" where
  "task_ready self =
     (case dst_tile_to_src_tiles_map (task_spec self) of
        Inl e \<Rightarrow> False
      | Inr m \<Rightarrow> \<forall>x\<in>set (enumerate 0 m). tile_ready self (plans_of (task_spec self)) x)"

text \<open>
  The state of the loops against the task at the start: the same spec, group and
  destination mesh, and every worker that had a list of send entries or of receive tasks
  still has one.
\<close>

definition keeps_lists :: "SymbolicReshardingTask \<Rightarrow> SymbolicReshardingTask \<Rightarrow> bool" where
  "keeps_lists self0 self \<longleftrightarrow>
     task_spec self = task_spec self0 \<and> collective_group self = collective_group self0 \<and>
     dst_mesh self = dst_mesh self0 \<and>
     (\<forall>w. map_of (sender_tasks self0) w \<noteq> None \<longrightarrow> map_of (sender_tasks self) w \<noteq> None) \<and>
     (\<forall>w. map_of (receiver_tasks self0) w \<noteq> None \<longrightarrow> map_of (receiver_tasks self) w \<noteq> None)"

text \<open>
  A mesh of one host with two devices, and the 4 x 4 array replicated on it: one tile with
  two replicas.
\<close>

definition mesh_1x2 :: Mesh where
  "mesh_1x2 =
     \<lparr>host_ips = [''e''], workers = [Worker 5], device_strs = [''e:0'', ''e:1''],
      num_devices_per_host = 2, num_hosts = 1, num_devices = 2\<rparr>"

definition array_4x4_on_1x2 :: VirtualDistributedArray where
  "array_4x4_on_1x2 =
     \<lparr>device_mesh = mesh_1x2, aval = \<lparr>shape = [4, 4], dtype = ''float32''\<rparr>,
      sharding_spec = \<lparr>sharding = [NoSharding, NoSharding], mesh_mapping = [Replicated 2]\<rparr>,
      vda_tile_shape = [1, 1],
      vda_tiles = [new_tile [(0, 4), (0, 4)] [''e:0'', ''e:1'']],
      vda_indices = [[Slice None None, Slice None None], [Slice None None, Slice None None]]\<rparr>"

definition spec_4x4_replicated :: ReshardingTaskSpec where
  "spec_4x4_replicated = ReshardingTaskSpec_init array_4x4_rows array_4x4_on_1x2 None"

text \<open>
  The collective group of the mesh of two hosts and the mesh of one host with two devices,
  as the constructor builds it, and the task of the 4 x 4 array between them with the
  strategy that the loads give: the first replica takes the upper half from \<open>c:0\<close> and the
  lower half from \<open>d:0\<close>, the second replica takes them from \<open>c:1\<close> and \<open>d:1\<close>.
\<close>

definition group_2x2_1x2 :: CollectiveGroup where
  "group_2x2_1x2 =
     \<lparr>group_device_strs = [''c:0'', ''c:1'', ''d:0'', ''d:1'', ''e:0'', ''e:1''],
      group_src_mesh = mesh_2x2, group_dst_mesh = mesh_1x2,
      group_name = ''c:0,c:1,d:0,d:1,e:0,e:1'',
      device_str_to_rank_map =
        [(''c:0'', (0, 0)), (''c:1'', (0, 1)), (''d:0'', (1, 0)), (''d:1'', (1, 1)),
         (''e:0'', (2, 0)), (''e:1'', (2, 1))],
      device_str_to_mesh_worker_map =
        [(''c:0'', Worker 2), (''c:1'', Worker 2), (''d:0'', Worker 3), (''d:1'', Worker 3),
         (''e:0'', Worker 5), (''e:1'', Worker 5)],
      device_str_to_host_id_map =
        [(''c:0'', 0), (''c:1'', 0), (''d:0'', 1), (''d:1'', 1), (''e:0'', 0), (''e:1'', 0)],
      device_str_to_device_id_map =
        [(''c:0'', 0), (''c:1'', 1), (''d:0'', 0), (''d:1'', 1), (''e:0'', 0), (''e:1'', 1)],
      worker_to_rank_map = [(Some (Worker 2), 0), (Some (Worker 3), 1), (Some (Worker 5), 2)],
      mesh_workers = [Some (Worker 2), Some (Worker 3), Some (Worker 5)]\<rparr>"

definition task_4x4 :: SymbolicReshardingTask where
  "task_4x4 =
     \<lparr>task_spec =
        set_resharding_strategy spec_4x4_replicated
          \<lparr>per_spec_plans = [[[''c:0'', ''d:0''], [''c:1'', ''d:1'']]],
           is_local_allgather = False\<rparr>,
      collective_group = group_2x2_1x2, src_mesh = mesh_2x2, dst_mesh = mesh_1x2,
      sender_tasks = [(Worker 2, []), (Worker 3, [])],
      receiver_tasks = [(Worker 5, [])],
      allgather_tasks = [(Worker 5, [])],
      sender_uuid_plan = [], receiver_uuid_plan = []\<rparr>"

text \<open>
  The entries of the example: a half of a source tile sent to device \<open>g\<close> of the
  destination host (rank 2), and the upper or the lower half of the destination tile
  received from device \<open>g\<close> of a source host.
\<close>

definition send_half_to :: "nat \<Rightarrow> ReshardingTileSpec" where
  "send_half_to g =
     \<lparr>spec_offset = [Slice (Some 0) (Some 2), Slice (Some 0) (Some 4)], rank = 2, gpu_idx = g\<rparr>"

definition recv_upper_from :: "nat \<Rightarrow> ReshardingTileSpec" where
  "recv_upper_from g =
     \<lparr>spec_offset = [Slice (Some 0) (Some 2), Slice (Some 0) (Some 4)], rank = 0, gpu_idx = g\<rparr>"

definition recv_lower_from :: "nat \<Rightarrow> ReshardingTileSpec" where
  "recv_lower_from g =
     \<lparr>spec_offset = [Slice (Some 2) (Some 4), Slice (Some 0) (Some 4)], rank = 1, gpu_idx = g\<rparr>"

definition transfers_4x4 :: "transfer list" where
  "transfers_4x4 =
     [(''c:0'', ''e:0'', send_half_to 0, recv_upper_from 0),
      (''d:0'', ''e:0'', send_half_to 0, recv_lower_from 0),
      (''c:1'', ''e:1'', send_half_to 1, recv_upper_from 1),
      (''d:1'', ''e:1'', send_half_to 1, recv_lower_from 1)]"

definition task_4x4_compiled :: SymbolicReshardingTask where
  "task_4x4_compiled =
     task_4x4
       \<lparr>sender_tasks :=
          [(Worker 2, [send_half_to 0, send_half_to 1]),
           (Worker 3, [send_half_to 0, send_half_to 1])],
        receiver_tasks :=
          [(Worker 5,
            [\<lparr>device_id = 0, recv_shape = [4, 4], recv_dtype = ''float32'',
              tile_specs = [recv_upper_from 0, recv_lower_from 0]\<rparr>,
             \<lparr>device_id = 1, recv_shape = [4, 4], recv_dtype = ''float32'',
              tile_specs = [recv_upper_from 1, recv_lower_from 1]\<rparr>])],
        sender_uuid_plan := [''c:0'', ''d:0'', ''c:1'', ''d:1''],
        receiver_uuid_plan := [''e:0'', ''e:1'']\<rparr>"

section \<open>Properties\<close>

subsection \<open>Task ids\<close>

lemma uuid_calls_fst:
  "fst (uuid_calls n c) = map (\<lambda>k. (c + 1 + int k) mod 2 ^ 60) [0..<n]"
proof (induction n arbitrary: c)
  case 0
  show ?case by simp
next
  case (Suc n)
  have m: "((c + 1) mod 2 ^ 60 + 1 + int k) mod 2 ^ 60 = (c + 1 + int (Suc k)) mod 2 ^ 60" for k
  proof -
    have "((c + 1) mod 2 ^ 60 + (1 + int k)) mod 2 ^ 60 = ((c + 1) + (1 + int k)) mod 2 ^ 60"
      by (rule mod_add_left_eq)
    then show ?thesis
      by (simp only: add.assoc of_nat_Suc add.commute[of "int k" 1])
  qed
  have "fst (uuid_calls (Suc n) c) =
          ((c + 1) mod 2 ^ 60) # fst (uuid_calls n ((c + 1) mod 2 ^ 60))"
    by (simp add: next_resharding_task_uuid_def Let_def split: prod.splits)
  also have "\<dots> = ((c + 1) mod 2 ^ 60) # map (\<lambda>k. (c + 1 + int (Suc k)) mod 2 ^ 60) [0..<n]"
    using Suc.IH[of "(c + 1) mod 2 ^ 60"] m by simp
  also have "\<dots> = map (\<lambda>k. (c + 1 + int k) mod 2 ^ 60) (0 # map Suc [0..<n])"
    by simp
  also have "0 # map Suc [0..<n] = [0..<Suc n]"
    by (simp add: upt_conv_Cons map_Suc_upt del: upt_Suc)
  finally show ?case .
qed

lemma mod_window_inj:
  assumes "i < j" "j < n" "n \<le> 2 ^ 60"
  shows "(c + 1 + int i) mod 2 ^ 60 \<noteq> (c + 1 + int j) mod (2 ^ 60 :: int)"
proof
  assume "(c + 1 + int i) mod 2 ^ 60 = (c + 1 + int j) mod (2 ^ 60 :: int)"
  then have "(2 ^ 60 :: int) dvd (c + 1 + int j) - (c + 1 + int i)"
    by (metis mod_eq_dvd_iff)
  then have d: "(2 ^ 60 :: int) dvd int j - int i"
    by simp
  have "0 < int j - int i"
    using assms by simp
  moreover have "int j - int i < 2 ^ 60"
    using assms by simp
  ultimately show False
    using d zdvd_not_zless by blast
qed

lemma uuid_calls_distinct: "n \<le> 2 ^ 60 \<Longrightarrow> distinct (fst (uuid_calls n c))"
  unfolding uuid_calls_fst distinct_map
  apply (rule conjI, simp)
  apply (rule inj_onI)
  subgoal for x y
    using mod_window_inj[of x y n c] mod_window_inj[of y x n c]
    by (cases "x < y"; cases "y < x"; simp)
  done

lemma next_uuid_range:
  "0 \<le> fst (next_resharding_task_uuid c) \<and> fst (next_resharding_task_uuid c) < 2 ^ 60"
  by (simp add: next_resharding_task_uuid_def Let_def)

lemma next_uuid_succ:
  assumes "0 \<le> r" "r < 2 ^ 60"
  shows "fst (next_resharding_task_uuid r) = (if r = 2 ^ 60 - 1 then 0 else r + 1)"
proof (cases "r = 2 ^ 60 - 1")
  case True
  then show ?thesis
    by (simp add: next_resharding_task_uuid_def Let_def)
next
  case False
  with assms have "r + 1 < 2 ^ 60" "0 \<le> r + 1"
    by simp_all
  then have "(r + 1) mod 2 ^ 60 = r + 1"
    by (rule_tac mod_pos_pos_trivial)
  with False show ?thesis
    by (simp add: next_resharding_task_uuid_def Let_def)
qed

text \<open>
  C9. A call of \<open>next_resharding_task_uuid\<close> returns the previous counter plus one modulo
  \<open>2^60\<close> and stores it as the new counter; the id lies in \<open>[0, 2^60)\<close>; the call after
  one that returned \<open>r\<close> returns \<open>r + 1\<close>, a larger id, unless \<open>r = 2^60 - 1\<close>, and then it
  returns \<open>0\<close>; and the ids of fewer than \<open>2^60\<close> consecutive calls are pairwise distinct.
\<close>

theorem next_resharding_task_uuid_fresh:
  "(case next_resharding_task_uuid c of
      (r, c') \<Rightarrow>
        r = (c + 1) mod 2 ^ 60 \<and> c' = r \<and> 0 \<le> r \<and> r < 2 ^ 60 \<and>
        (r \<noteq> 2 ^ 60 - 1 \<longrightarrow>
           fst (next_resharding_task_uuid c') = r + 1 \<and> r < fst (next_resharding_task_uuid c')) \<and>
        (r = 2 ^ 60 - 1 \<longrightarrow> fst (next_resharding_task_uuid c') = 0)) \<and>
   (n < 2 ^ 60 \<longrightarrow> distinct (fst (uuid_calls n c)))"
proof -
  obtain r c' where rc: "next_resharding_task_uuid c = (r, c')"
    by (cases "next_resharding_task_uuid c")
  have r: "r = (c + 1) mod 2 ^ 60" and c': "c' = r"
    using rc by (simp_all add: next_resharding_task_uuid_def Let_def)
  have range: "0 \<le> r" "r < 2 ^ 60"
    using next_uuid_range[of c] rc by simp_all
  have succ: "fst (next_resharding_task_uuid c') = (if r = 2 ^ 60 - 1 then 0 else r + 1)"
    using next_uuid_succ[OF range] c' by simp
  have up: "r \<noteq> 2 ^ 60 - 1 \<longrightarrow>
      fst (next_resharding_task_uuid c') = r + 1 \<and> r < fst (next_resharding_task_uuid c')"
    using succ by simp
  have wrap: "r = 2 ^ 60 - 1 \<longrightarrow> fst (next_resharding_task_uuid c') = 0"
    using succ by simp
  have fresh: "n < 2 ^ 60 \<longrightarrow> distinct (fst (uuid_calls n c))"
    using uuid_calls_distinct[of n c] by simp
  show ?thesis
    unfolding rc prod.case using r c' range up wrap fresh by blast
qed

theorem next_resharding_task_uuid_fresh_witness:
  "fst (next_resharding_task_uuid (2 ^ 60 - 2)) = 2 ^ 60 - 1 \<and>
   fst (next_resharding_task_uuid (snd (next_resharding_task_uuid (2 ^ 60 - 2)))) = 0 \<and>
   fst (next_resharding_task_uuid resharding_task_counter_init) = 1 \<and>
   distinct (fst (uuid_calls 3 (2 ^ 60 - 2)))"
  using next_resharding_task_uuid_fresh[of "2 ^ 60 - 2" 3]
  by (simp add: next_resharding_task_uuid_def resharding_task_counter_init_def Let_def)

subsection \<open>Reading the strategy\<close>

lemma strategy_reads_set:
  "strategy_field self = Some s \<Longrightarrow> strategy_reads n self = (replicate n (Inr s), self)"
  by (induction n) (simp_all add: strategy_def truthy_strategy_def)

text \<open>
  C6. Reading \<open>strategy\<close> of a spec on which \<open>set_resharding_strategy\<close> has not been called (a
  new spec, or any spec whose \<^verbatim>\<open>_strategy\<close> is still \<^verbatim>\<open>None\<close>) raises RuntimeError;
  after \<open>set_resharding_strategy self s\<close> every read in a row returns \<open>s\<close> and the spec
  stays as the call left it.
\<close>

theorem strategy_raises_before_set_returns_after:
  "fst (strategy (ReshardingTaskSpec_init src_array dst_array ags)) = Inl RuntimeError \<and>
   fst (strategy (self\<lparr>strategy_field := None\<rparr>)) = Inl RuntimeError \<and>
   strategy (set_resharding_strategy self s) = (Inr s, set_resharding_strategy self s) \<and>
   strategy_reads n (set_resharding_strategy self s) =
     (replicate n (Inr s), set_resharding_strategy self s)"
proof -
  have "strategy_field (set_resharding_strategy self s) = Some s"
    by (simp add: set_resharding_strategy_def)
  then have "strategy_reads n (set_resharding_strategy self s) =
      (replicate n (Inr s), set_resharding_strategy self s)"
    by (rule strategy_reads_set)
  then show ?thesis
    by (simp add: strategy_def truthy_strategy_def ReshardingTaskSpec_init_def
        set_resharding_strategy_def)
qed

subsection \<open>The allgather rewrite and the mesh dimensionality\<close>

lemma ebind_simps:
  "ebind (Inl e) f = Inl e"
  "ebind (Inr x) f = f x"
  by (simp_all add: ebind_def)

lemma mesh_shape_of_length:
  "mesh_shape_of sp ca mm = Inr shp \<Longrightarrow> length shp = length mm"
  by (induction mm arbitrary: shp) (auto split: sum.splits)

lemma step_and_offset_rejects_3d:
  assumes "3 \<le> length (mesh_mapping (dst_sharding_spec (task_spec self)))"
  shows "\<exists>e. allgather_receiver_step_and_offset self receiver = Inl e"
proof (cases "allgather_slice (task_spec self)")
  case None
  then show ?thesis
    by (simp add: allgather_receiver_step_and_offset_def)
next
  case (Some sl)
  obtain t mesh_axis extra where sl: "sl = (t, mesh_axis, extra)"
    by (cases sl)
  show ?thesis
  proof (cases "dict_get (device_str_to_rank_map (collective_group self)) receiver")
    case (Inl e)
    then show ?thesis
      using Some sl by (simp add: allgather_receiver_step_and_offset_def ebind_simps)
  next
    case (Inr rk)
    obtain h d where rk: "rk = (h, d)"
      by (cases rk)
    let ?sp = "dst_sharding_spec (task_spec self)"
    show ?thesis
    proof (cases "mesh_shape_of ?sp (chunked_axes_of ?sp) (mesh_mapping ?sp)")
      case (Inl e)
      then show ?thesis
        using Some sl Inr rk
        by (simp add: allgather_receiver_step_and_offset_def ebind_simps Let_def)
    next
      case shp: (Inr shp)
      then have "length shp = length (mesh_mapping ?sp)"
        by (rule mesh_shape_of_length)
      with assms have "\<not> length shp < 3"
        by simp
      then show ?thesis
        using Some sl Inr rk shp
        by (simp add: allgather_receiver_step_and_offset_def ebind_simps Let_def py_assert_def)
    qed
  qed
qed

lemma step_and_offset_assertion_3d:
  assumes "3 \<le> length (mesh_mapping (dst_sharding_spec (task_spec self)))"
    and "allgather_slice (task_spec self) = Some sl"
    and "dict_get (device_str_to_rank_map (collective_group self)) receiver = Inr rk"
    and "mesh_shape_of (dst_sharding_spec (task_spec self))
           (chunked_axes_of (dst_sharding_spec (task_spec self)))
           (mesh_mapping (dst_sharding_spec (task_spec self))) = Inr shp"
  shows "allgather_receiver_step_and_offset self receiver = Inl AssertionError"
proof -
  obtain t mesh_axis extra where sl: "sl = (t, mesh_axis, extra)"
    by (cases sl)
  obtain h d where rk: "rk = (h, d)"
    by (cases rk)
  have "length shp = length (mesh_mapping (dst_sharding_spec (task_spec self)))"
    using assms(4) by (rule mesh_shape_of_length)
  with assms(1) have "\<not> length shp < 3"
    by simp
  then show ?thesis
    using assms(2,3,4) sl rk
    by (simp add: allgather_receiver_step_and_offset_def ebind_simps Let_def py_assert_def)
qed

lemma step_and_offset_accepts_2d:
  assumes "length (mesh_mapping (dst_sharding_spec (task_spec self))) = 2"
    and "allgather_slice (task_spec self) = Some (t, mesh_axis, extra)"
    and "mesh_axis < 2" "extra \<noteq> 0"
    and "dict_get (device_str_to_rank_map (collective_group self)) receiver = Inr rk"
    and "mesh_shape_of (dst_sharding_spec (task_spec self))
           (chunked_axes_of (dst_sharding_spec (task_spec self)))
           (mesh_mapping (dst_sharding_spec (task_spec self))) = Inr shp"
    and "shp ! 1 \<noteq> 0"
  shows "\<exists>r. allgather_receiver_step_and_offset self receiver = Inr r"
proof -
  obtain h d where rk: "rk = (h, d)"
    by (cases rk)
  have len: "length shp = 2"
    using mesh_shape_of_length[OF assms(6)] assms(1) by simp
  have "mesh_axis = 0 \<or> mesh_axis = 1"
    using assms(3) by auto
  then show ?thesis
    using assms(2,4,5,6,7) rk len
    by (auto simp add: allgather_receiver_step_and_offset_def ebind_simps Let_def py_assert_def
        list_get_def py_mod_def py_floordiv_def)
qed

lemma rewrite_returns_when_fully_sharded:
  "use_scatter_gather cfg \<Longrightarrow> scan_sharding 0 (sharding sp) 1 [] = Inr (tot, cd) \<Longrightarrow>
   tot = int (num_devices m) \<Longrightarrow> rewrite_allgather_specs cfg sp m v = Inr (sp, None)"
  by (simp add: rewrite_allgather_specs_def ebind_simps)

lemma rewrite_asserts_two_shard_axes:
  assumes "use_scatter_gather cfg" "scan_sharding 0 (sharding sp) 1 [] = Inr (tot, cd)"
    "tot \<noteq> int (num_devices m)" "tot \<noteq> 0" "int (num_devices m) mod tot = 0"
    "scan_mesh_mapping cd 0 (mesh_mapping sp) [] = Inr sa"
    "list_get (mesh_mapping sp) 0 = Inr fm"
    "first_dim_not_across_hosts sp cd m fm = Inr c"
    "\<not> (c \<and> num_hosts m > 1)" "2 \<le> length sa"
  shows "rewrite_allgather_specs cfg sp m v = Inl AssertionError"
  using assms
  by (simp add: rewrite_allgather_specs_def ebind_simps py_mod_def py_floordiv_def py_assert_def)

text \<open>
  C8. When \<open>use_scatter_gather\<close> is false, \<open>rewrite_allgather_specs\<close> (the source's
  \<^verbatim>\<open>_rewrite_allgather_specs\<close>) returns the destination sharding spec it was given,
  unchanged, together with \<^verbatim>\<open>None\<close> for the allgather slice, for every spec, mesh and
  variable.
\<close>

theorem rewrite_allgather_specs_disabled:
  "\<not> use_scatter_gather global_config \<Longrightarrow>
   rewrite_allgather_specs global_config dst_sharding_spec' dst_mesh' var =
     Inr (dst_sharding_spec', None)"
  by (simp add: rewrite_allgather_specs_def)

theorem rewrite_allgather_specs_disabled_witness:
  "\<not> use_scatter_gather config_no_scatter_gather \<and>
   rewrite_allgather_specs config_no_scatter_gather spec_mesh_2d_sharded mesh_1x8 var_mat8 =
     Inr (spec_mesh_2d_sharded, None) \<and>
   rewrite_allgather_specs config_scatter_gather spec_mesh_2d_sharded mesh_1x8 var_mat8 =
     Inl AssertionError"
proof -
  have off: "\<not> use_scatter_gather config_no_scatter_gather"
    by (simp add: config_no_scatter_gather_def)
  have on: "rewrite_allgather_specs config_scatter_gather spec_mesh_2d_sharded mesh_1x8 var_mat8 =
      Inl AssertionError"
    by code_simp
  show ?thesis
    using off on rewrite_allgather_specs_disabled[OF off, of spec_mesh_2d_sharded mesh_1x8 var_mat8]
    by simp
qed

lemma step_and_offset_rejects_1d:
  assumes "length (mesh_mapping (dst_sharding_spec (task_spec self))) = 1"
  shows "\<exists>e. allgather_receiver_step_and_offset self receiver = Inl e"
proof (cases "allgather_slice (task_spec self)")
  case None
  then show ?thesis
    by (simp add: allgather_receiver_step_and_offset_def)
next
  case (Some sl)
  obtain t mesh_axis extra where sl: "sl = (t, mesh_axis, extra)"
    by (cases sl)
  show ?thesis
  proof (cases "dict_get (device_str_to_rank_map (collective_group self)) receiver")
    case (Inl e)
    then show ?thesis
      using Some sl by (simp add: allgather_receiver_step_and_offset_def ebind_simps)
  next
    case (Inr rk)
    obtain h d where rk: "rk = (h, d)"
      by (cases rk)
    let ?sp = "dst_sharding_spec (task_spec self)"
    show ?thesis
    proof (cases "mesh_shape_of ?sp (chunked_axes_of ?sp) (mesh_mapping ?sp)")
      case (Inl e)
      then show ?thesis
        using Some sl Inr rk
        by (simp add: allgather_receiver_step_and_offset_def ebind_simps Let_def)
    next
      case shp: (Inr shp)
      then have "length shp = length (mesh_mapping ?sp)"
        by (rule mesh_shape_of_length)
      with assms have "list_get shp 1 = Inl IndexError"
        by (simp add: list_get_def)
      then show ?thesis
        using Some sl Inr rk shp
        by (simp add: allgather_receiver_step_and_offset_def ebind_simps Let_def py_assert_def)
    qed
  qed
qed

lemma rewrite_dim_assertion_never_fails:
  "rewrite_dim cur_dst_sharding shard_axes dim new_chunked_value extra_sharding \<noteq>
     Inl AssertionError"
  by (simp add: rewrite_dim_def Let_def py_assert_def ebind_simps dict_get_def
      split: option.splits)

text \<open>
  C7, at a destination sharding spec with a mesh mapping of three entries and at one with
  a mesh mapping of one entry. The claim asks for an assertion failure in the first case
  and for a result in the second. With \<open>use_scatter_gather\<close> on, the rewrite
  (\<^verbatim>\<open>_rewrite_allgather_specs\<close>) turns the vector chunked in two on a mesh of shape
  2 x 2 x 2 into a spec with a mesh mapping of two entries and returns it with the slice
  \<open>(0, 0, 4)\<close>: its assertion \<^verbatim>\<open>len(new_mapping) < 3\<close> is over a list that is built with
  two entries, so it holds on every input (last conjunct), and the assertion on
  \<^verbatim>\<open>shard_axes\<close> counts the sharded tensor axes, not the entries of the mesh mapping. The
  group computation (\<^verbatim>\<open>_allgather_receiver_step_and_offset\<close>) passes its assertion with a
  mesh mapping of one entry and then raises IndexError at \<^verbatim>\<open>dst_mesh_shape[1]\<close>; with the
  mesh mapping of three entries it fails at the assertion, as the claim says.
\<close>

theorem allgather_mesh_dimension_slips:
  "length (mesh_mapping spec_mesh_3d) = 3 \<and>
   rewrite_allgather_specs config_scatter_gather spec_mesh_3d mesh_1x8 var_vec8 =
     Inr (spec_mesh_2d_rewritten, Some (0, 0, 4)) \<and>
   length (mesh_mapping (dst_sharding_spec (task_spec (task_with_dst_spec spec_mesh_1d)))) = 1 \<and>
   allgather_receiver_step_and_offset (task_with_dst_spec spec_mesh_1d) ''b:0'' =
     Inl IndexError \<and>
   allgather_receiver_step_and_offset (task_with_dst_spec spec_mesh_3d) ''b:0'' =
     Inl AssertionError \<and>
   rewrite_dim cur_dst_sharding shard_axes dim new_chunked_value extra_sharding \<noteq>
     Inl AssertionError"
proof -
  have "length (mesh_mapping spec_mesh_3d) = 3 \<and>
   rewrite_allgather_specs config_scatter_gather spec_mesh_3d mesh_1x8 var_vec8 =
     Inr (spec_mesh_2d_rewritten, Some (0, 0, 4)) \<and>
   length (mesh_mapping (dst_sharding_spec (task_spec (task_with_dst_spec spec_mesh_1d)))) = 1 \<and>
   allgather_receiver_step_and_offset (task_with_dst_spec spec_mesh_1d) ''b:0'' =
     Inl IndexError \<and>
   allgather_receiver_step_and_offset (task_with_dst_spec spec_mesh_3d) ''b:0'' =
     Inl AssertionError"
    by code_simp
  then show ?thesis
    using rewrite_dim_assertion_never_fails by blast
qed

subsection \<open>Ranks of a collective group\<close>

text \<open>
  C2, at a source mesh of one host with one device and a destination mesh of two hosts
  with two devices each. The claim maps device 1 of destination host 0 to \<open>(1, 1)\<close>,
  device 0 of destination host 1 to \<open>(2, 0)\<close> and device 1 of destination host 1 to
  \<open>(2, 1)\<close>. The constructor indexes the device strings of the destination mesh with the
  number of devices per host of the source mesh: it maps the first to \<open>(2, 0)\<close>, the second
  to \<open>(2, 1)\<close> and leaves the third out. With a source mesh of eight devices per host the
  same index runs past the device strings of the destination mesh.
\<close>

theorem CollectiveGroup_init_mixed_devices_per_host:
  "map_sum id device_str_to_rank_map
     (CollectiveGroup_init (device_strs mesh_1x1 @ device_strs mesh_2x2) mesh_1x1 mesh_2x2) =
     Inr [(''a:0'', (0, 0)), (''c:0'', (1, 0)),
          (''c:1'', (2, 0)), (''d:0'', (2, 1))] \<and>
   map_sum id mesh_workers
     (CollectiveGroup_init (device_strs mesh_1x1 @ device_strs mesh_2x2) mesh_1x1 mesh_2x2) =
     Inr [Some (Worker 7), Some (Worker 2), Some (Worker 3)] \<and>
   CollectiveGroup_init (device_strs mesh_1x8 @ device_strs mesh_2x2) mesh_1x8 mesh_2x2 =
     Inl IndexError"
  by code_simp

subsection \<open>Resharding specs only between distinct meshes\<close>

lemma list_get_Inr: "list_get xs i = Inr x \<longleftrightarrow> i < length xs \<and> x = xs ! i"
  by (auto simp: list_get_def)

lemma specs_set_frame:
  assumes "specs_set specs s d k t = Inr specs'"
  shows "length specs' = length specs"
    and "\<And>i. length (specs' ! i) = length (specs ! i)"
    and "\<And>i j. (i, j) \<noteq> (s, d) \<Longrightarrow> specs' ! i ! j = specs ! i ! j"
proof -
  from assms have s: "s < length specs" and d: "d < length (specs ! s)"
    and eq: "specs' = specs[s := (specs ! s)[d := dict_set (specs ! s ! d) k t]]"
    by (auto simp: specs_set_def ebind_def list_get_def split: sum.splits if_splits)
  show "length specs' = length specs"
    using eq by simp
  show "length (specs' ! i) = length (specs ! i)" for i
    using eq s by (cases "i = s") simp_all
  show "specs' ! i ! j = specs ! i ! j" if "(i, j) \<noteq> (s, d)" for i j
  proof (cases "i = s")
    case True
    with that have "j \<noteq> d"
      by simp
    then show ?thesis
      using eq s True by simp
  next
    case False
    then show ?thesis
      using eq by simp
  qed
qed

lemma vars_loop_frame:
  assumes "vars_loop cfg na ss ds sm dm s d vs specs = Inr specs'"
  shows "length specs' = length specs \<and> (\<forall>i. length (specs' ! i) = length (specs ! i)) \<and>
         (\<forall>i j. (i, j) \<noteq> (s, d) \<longrightarrow> specs' ! i ! j = specs ! i ! j)"
  using assms
proof (induction vs arbitrary: specs)
  case Nil
  then show ?case
    by simp
next
  case (Cons v vs)
  obtain var o' i' where v: "v = (var, o', i')"
    by (cases v)
  from Cons.prems v have
    "\<exists>t specs''. specs_set specs s d (var_repr var) t = Inr specs'' \<and>
        vars_loop cfg na ss ds sm dm s d vs specs'' = Inr specs'"
    by (auto split: sum.splits prod.splits)
  then obtain t specs'' where
    a: "specs_set specs s d (var_repr var) t = Inr specs''"
    and b: "vars_loop cfg na ss ds sm dm s d vs specs'' = Inr specs'"
    by blast
  from Cons.IH[OF b] specs_set_frame[OF a] show ?case
    by simp
qed

lemma pairs_loop_inv:
  assumes "pairs_loop cfg na stages ms pl ps specs = Inr specs'"
    and "set ps \<subseteq> P" and "specs_inv n P pl specs"
  shows "specs_inv n P pl specs'"
  using assms
proof (induction ps arbitrary: specs)
  case Nil
  then show ?case
    by simp
next
  case (Cons p ps)
  obtain di si where p: "p = (di, si)"
    by (cases p)
  have inP: "(di, si) \<in> P" and rest: "set ps \<subseteq> P"
    using Cons.prems(2) p by auto
  from Cons.prems(1) p have si: "si < length pl" and di: "di < length pl"
    by (auto simp: list_get_Inr split: sum.splits)
  show ?case
  proof (cases "pl ! si = pl ! di")
    case True
    with Cons.prems(1) p have "pairs_loop cfg na stages ms pl ps specs = Inr specs'"
      by (auto simp: list_get_Inr split: sum.splits if_splits)
    from Cons.IH[OF this rest Cons.prems(3)] show ?thesis .
  next
    case False
    with Cons.prems(1) p obtain ss ds sm dm mid where
      v: "vars_loop cfg na ss ds sm dm (pl ! si) (pl ! di) (args_between ss ds) specs = Inr mid"
      and r: "pairs_loop cfg na stages ms pl ps mid = Inr specs'"
      by (auto simp: list_get_Inr split: sum.splits if_splits)
    from vars_loop_frame[OF v] have
      f1: "length mid = length specs" and f2: "\<And>i. length (mid ! i) = length (specs ! i)"
      and f3: "\<And>i j. (i, j) \<noteq> (pl ! si, pl ! di) \<Longrightarrow> mid ! i ! j = specs ! i ! j"
      by auto
    have "specs_inv n P pl mid"
      unfolding specs_inv_def
    proof (intro conjI allI impI)
      show "length mid = n"
        using f1 Cons.prems(3) by (simp add: specs_inv_def)
      show "length (mid ! i) = n" if "i < n" for i
        using f2 Cons.prems(3) that by (simp add: specs_inv_def)
    next
      fix i j
      assume ij: "i < n" "j < n" and ne: "mid ! i ! j \<noteq> []"
      show "i \<noteq> j"
      proof (cases "(i, j) = (pl ! si, pl ! di)")
        case True
        with False show ?thesis
          by auto
      next
        case F: False
        with f3 ne have "specs ! i ! j \<noteq> []"
          by simp
        with Cons.prems(3) ij show ?thesis
          by (simp add: specs_inv_def)
      qed
      show "\<exists>(d, s)\<in>P. s < length pl \<and> d < length pl \<and> pl ! s = i \<and> pl ! d = j"
      proof (cases "(i, j) = (pl ! si, pl ! di)")
        case True
        with inP si di show ?thesis
          by auto
      next
        case F: False
        with f3 ne have "specs ! i ! j \<noteq> []"
          by simp
        with Cons.prems(3) ij show ?thesis
          by (simp add: specs_inv_def)
      qed
    qed
    from Cons.IH[OF r rest this] show ?thesis .
  qed
qed

lemma stage_placements_of_nth:
  "stage_placements_of schedule is = Inr pl \<Longrightarrow>
   length pl = length is \<and> (\<forall>k<length is. list_get (stage_placement schedule (is ! k)) 0 = Inr (pl ! k))"
proof (induction "is" arbitrary: pl)
  case Nil
  then show ?case
    by simp
next
  case (Cons i "is")
  from Cons.prems obtain p ps where
    p: "list_get (stage_placement schedule i) 0 = Inr p"
    and ps: "stage_placements_of schedule is = Inr ps" and pl: "pl = p # ps"
    by (auto split: sum.splits)
  from Cons.IH[OF ps] p pl show ?case
    by (auto simp: nth_Cons split: nat.splits)
qed

lemma argwhere_positive_iff:
  "(d, s) \<in> set (argwhere_positive deps) \<longleftrightarrow>
     d < nd_shape0 deps \<and> s < nd_shape1 deps \<and> nd_entry deps d s > 0"
  by (auto simp: argwhere_positive_def)

lemma task_spec_iter_row_eq:
  assumes "i < length specs" "\<forall>j\<in>set js. j < length (specs ! i)"
  shows "task_spec_iter_row specs i js =
     Inr (map (\<lambda>j. (i, j, specs ! i ! j)) (filter (\<lambda>j. specs ! i ! j \<noteq> []) js))"
  using assms by (induction js) (simp_all add: ebind_def list_get_def)

lemma task_spec_iter_rows_eq:
  assumes "\<forall>i\<in>set is. i < length specs \<and> length (specs ! i) = n"
  shows "task_spec_iter_rows specs n is =
     Inr (concat (map (\<lambda>i. map (\<lambda>j. (i, j, specs ! i ! j))
                              (filter (\<lambda>j. specs ! i ! j \<noteq> []) [0..<n])) is))"
  using assms
proof (induction "is")
  case Nil
  then show ?case
    by simp
next
  case (Cons i "is")
  then have "task_spec_iter_row specs i [0..<n] =
     Inr (map (\<lambda>j. (i, j, specs ! i ! j)) (filter (\<lambda>j. specs ! i ! j \<noteq> []) [0..<n]))"
    by (intro task_spec_iter_row_eq) auto
  with Cons show ?case
    by simp
qed

text \<open>
  C10. When \<open>create_resharding_specs\<close> (the source's \<^verbatim>\<open>_create_resharding_specs\<close>) returns,
  the matrix of specs is \<open>num_mesh\<close> by \<open>num_mesh\<close>, every entry on its diagonal is the empty
  map, and a non-empty entry at \<open>(i, j)\<close> comes from a positive entry \<open>(d, s)\<close> of the
  dependency matrix whose source stage \<open>s\<close> is placed on mesh \<open>i\<close> and whose destination
  stage \<open>d\<close> is placed on a different mesh \<open>j\<close>. So \<open>task_spec_iter\<close> yields exactly the
  non-empty entries in row-major order, and none of them has two equal mesh indices.
\<close>

theorem create_resharding_specs_cross_mesh_only:
  assumes "create_resharding_specs global_config new_array sharded_stages schedule = Inr specs"
  shows "length specs = num_mesh schedule \<and>
    (\<forall>i<num_mesh schedule. length (specs ! i) = num_mesh schedule \<and> specs ! i ! i = []) \<and>
    (\<forall>i<num_mesh schedule. \<forall>j<num_mesh schedule. specs ! i ! j \<noteq> [] \<longrightarrow>
       i \<noteq> j \<and>
       (\<exists>d s. d < length sharded_stages \<and> s < length sharded_stages \<and>
          nd_entry (dependency schedule) d s > 0 \<and>
          list_get (stage_placement schedule s) 0 = Inr i \<and>
          list_get (stage_placement schedule d) 0 = Inr j)) \<and>
    (\<exists>out. task_spec_iter (num_mesh schedule) specs = Inr out \<and>
       (\<forall>(i, j, m)\<in>set out. i \<noteq> j \<and> m = specs ! i ! j \<and> m \<noteq> []) \<and>
       (\<forall>i<num_mesh schedule. \<forall>j<num_mesh schedule.
          specs ! i ! j \<noteq> [] \<longrightarrow> (i, j, specs ! i ! j) \<in> set out))"
proof -
  let ?n = "num_mesh schedule"
  let ?k = "length sharded_stages"
  let ?deps = "dependency schedule"
  let ?P = "set (argwhere_positive ?deps)"
  from assms obtain pl where
    pl: "stage_placements_of schedule [0..<?k] = Inr pl"
    and sh: "nd_shape0 ?deps = ?k" "nd_shape1 ?deps = ?k"
    and loop: "pairs_loop global_config new_array sharded_stages (meshes schedule) pl
                 (argwhere_positive ?deps) (replicate ?n (replicate ?n [])) = Inr specs"
    by (auto simp: create_resharding_specs_def ebind_def py_assert_def Let_def
        split: sum.splits if_splits)
  have pln: "length pl = ?k"
    and plk: "\<And>s. s < ?k \<Longrightarrow> list_get (stage_placement schedule s) 0 = Inr (pl ! s)"
    using stage_placements_of_nth[OF pl] by auto
  have init: "specs_inv ?n ?P pl (replicate ?n (replicate ?n []))"
    by (simp add: specs_inv_def)
  have inv: "specs_inv ?n ?P pl specs"
    by (rule pairs_loop_inv[OF loop _ init]) simp
  have len: "length specs = ?n" and rows: "\<And>i. i < ?n \<Longrightarrow> length (specs ! i) = ?n"
    using inv by (simp_all add: specs_inv_def)
  have off: "i \<noteq> j \<and>
       (\<exists>d s. d < ?k \<and> s < ?k \<and> nd_entry ?deps d s > 0 \<and>
          list_get (stage_placement schedule s) 0 = Inr i \<and>
          list_get (stage_placement schedule d) 0 = Inr j)"
    if "i < ?n" "j < ?n" "specs ! i ! j \<noteq> []" for i j
  proof -
    from inv that obtain d s where neq: "i \<noteq> j" and ds: "(d, s) \<in> ?P"
      and s: "s < length pl" and d: "d < length pl" and e: "pl ! s = i" "pl ! d = j"
      unfolding specs_inv_def by blast
    from ds have "nd_entry ?deps d s > 0"
      by (simp add: argwhere_positive_iff)
    with neq s d e pln plk[of s] plk[of d] show ?thesis
      by auto
  qed
  have diag: "specs ! i ! i = []" if "i < ?n" for i
    using off[of i i] that by blast
  have iter: "task_spec_iter ?n specs =
     Inr (concat (map (\<lambda>i. map (\<lambda>j. (i, j, specs ! i ! j))
                              (filter (\<lambda>j. specs ! i ! j \<noteq> []) [0..<?n])) [0..<?n]))"
    unfolding task_spec_iter_def using len rows
    by (intro task_spec_iter_rows_eq) simp
  let ?out = "concat (map (\<lambda>i. map (\<lambda>j. (i, j, specs ! i ! j))
                              (filter (\<lambda>j. specs ! i ! j \<noteq> []) [0..<?n])) [0..<?n])"
  have out1: "\<forall>(i, j, m)\<in>set ?out. i \<noteq> j \<and> m = specs ! i ! j \<and> m \<noteq> []"
    using off by auto
  have out2: "\<forall>i<?n. \<forall>j<?n. specs ! i ! j \<noteq> [] \<longrightarrow> (i, j, specs ! i ! j) \<in> set ?out"
    by auto
  show ?thesis
    using len rows diag off iter out1 out2 by blast
qed

theorem create_resharding_specs_cross_mesh_only_witness:
  "create_resharding_specs config_no_scatter_gather array_on [stage_producer, stage_consumer]
     schedule_two_stages = Inr specs_two_stages \<and>
   specs_two_stages ! 0 ! 0 = [] \<and> specs_two_stages ! 1 ! 1 = [] \<and>
   specs_two_stages ! 0 ! 1 \<noteq> [] \<and>
   (\<exists>out. task_spec_iter 2 specs_two_stages = Inr out \<and>
      (\<forall>(i, j, m)\<in>set out. i \<noteq> j) \<and> (0, 1, specs_two_stages ! 0 ! 1) \<in> set out)"
proof -
  have run: "create_resharding_specs config_no_scatter_gather array_on
      [stage_producer, stage_consumer] schedule_two_stages = Inr specs_two_stages"
    by code_simp
  have n: "num_mesh schedule_two_stages = 2"
    by (simp add: schedule_two_stages_def)
  have ne: "specs_two_stages ! 0 ! 1 \<noteq> []"
    by (simp add: specs_two_stages_def)
  from create_resharding_specs_cross_mesh_only[OF run] n ne
  have d: "specs_two_stages ! 0 ! 0 = []" "specs_two_stages ! 1 ! 1 = []"
    and "\<exists>out. task_spec_iter 2 specs_two_stages = Inr out \<and>
       (\<forall>(i, j, m)\<in>set out. i \<noteq> j \<and> m = specs_two_stages ! i ! j \<and> m \<noteq> []) \<and>
       (\<forall>i<2. \<forall>j<2. specs_two_stages ! i ! j \<noteq> [] \<longrightarrow>
           (i, j, specs_two_stages ! i ! j) \<in> set out)"
    by simp_all
  then obtain out where o: "task_spec_iter 2 specs_two_stages = Inr out"
    and o1: "\<forall>(i, j, m)\<in>set out. i \<noteq> j \<and> m = specs_two_stages ! i ! j \<and> m \<noteq> []"
    and o2: "\<forall>i<2. \<forall>j<2. specs_two_stages ! i ! j \<noteq> [] \<longrightarrow>
           (i, j, specs_two_stages ! i ! j) \<in> set out"
    by blast
  have "(0, 1, specs_two_stages ! 0 ! 1) \<in> set out"
    using o2 ne by simp
  moreover have "\<forall>(i, j, m)\<in>set out. i \<noteq> j"
    using o1 by auto
  ultimately show ?thesis
    using run d ne o by blast
qed

subsection \<open>The source tile slices tile a destination tile\<close>

lemma div_eq_iff_int:
  fixes L :: int
  assumes "0 < L"
  shows "y div L = r \<longleftrightarrow> r * L \<le> y \<and> y < (r + 1) * L"
proof
  assume "y div L = r"
  then have "y = r * L + y mod L" by (metis mult.commute mult_div_mod_eq)
  moreover have "0 \<le> y mod L" "y mod L < L" using assms by simp_all
  ultimately show "r * L \<le> y \<and> y < (r + 1) * L" by (simp add: algebra_simps)
next
  assume h: "r * L \<le> y \<and> y < (r + 1) * L"
  have "(y + (- r) * L) div L = - r + y div L"
    using assms by (subst div_mult_self1) simp_all
  moreover have "0 \<le> y + (- r) * L" "y + (- r) * L < L"
    using h by (simp_all add: algebra_simps)
  then have "(y + (- r) * L) div L = 0"
    by (rule div_pos_pos_trivial)
  ultimately have "y div L = r"
    by simp
  then show "y div L = r" .
qed

lemma axis_rel_facts:
  fixes L a b :: int
  assumes L: "0 < L" and ab: "a \<le> b"
    and rel: "axis_rel L a b = ((st, en), (so, eo))"
  shows "a = st * L + so" "0 \<le> so" "so < L" "b = (en - 1) * L + eo" "0 < eo" "eo \<le> L" "st \<le> en"
proof -
  from rel have st: "st = a div L" and so: "so = a mod L"
    and en: "en = (if b mod L \<noteq> 0 then b div L + 1 else b div L)"
    and eo: "eo = (if b mod L = 0 then L else b mod L)"
    by (simp_all add: axis_rel_def)
  show "a = st * L + so" using st so by (simp add: algebra_simps)
  show "0 \<le> so" "so < L" using so L by simp_all
  have bm: "0 \<le> b mod L" "b mod L < L" using L by simp_all
  have bd: "b = (b div L) * L + b mod L" by (simp add: algebra_simps)
  show bb: "b = (en - 1) * L + eo"
  proof (cases "b mod L = 0")
    case True
    then have "en = b div L" "eo = L" using en eo by simp_all
    with bd True show ?thesis by (simp add: algebra_simps)
  next
    case False
    then have "en = b div L + 1" "eo = b mod L" using en eo by simp_all
    with bd show ?thesis by simp
  qed
  show "0 < eo"
  proof (cases "b mod L = 0")
    case True
    then show ?thesis using eo L by simp
  next
    case False
    with bm have "0 < b mod L" by linarith
    with False eo show ?thesis by simp
  qed
  show "eo \<le> L" using eo bm by (auto split: if_splits)
  have "a div L \<le> b div L" using ab L by (simp add: zdiv_mono1)
  then show "st \<le> en" using st en by (auto split: if_splits)
qed

lemma in_place_iff:
  fixes L :: int
  assumes "0 < L"
  shows "place_lo L a r \<le> x \<and> x < place_hi L a b r \<longleftrightarrow>
         0 \<le> x \<and> x < b - a \<and> (x + a) div L = r"
  unfolding place_lo_def place_hi_def div_eq_iff_int[OF assms]
  by auto


lemma axis_offsets_indices_closed:
  fixes L a b :: int
  assumes L: "0 < L" and ab: "a \<le> b" and rel: "axis_rel L a b = ((st, en), (so, eo))"
    and r: "st \<le> r" "r < en"
    and ts: "list_get (tile_shape T) i = Inr (b - a)"
    and rl: "list_get relc i = Inr (r - st)"
  shows "axis_offsets_indices (st, en) (so, eo) T L relc i r =
     Inr (Slice (Some (place_lo L a r + a - r * L)) (Some (place_hi L a b r + a - r * L)),
          Slice (Some (place_lo L a r)) (Some (place_hi L a b r)))"
proof -
  note f = axis_rel_facts[OF L ab rel]
  define X where "X = st * L"
  define Y where "Y = en * L"
  define Z where "Z = r * L"
  have a: "a = X + so" using f(1) by (simp add: X_def)
  have b: "b = Y - L + eo" using f(4) by (simp add: Y_def algebra_simps)
  have lo: "place_lo L a r = max 0 (Z - a)"
    by (simp add: place_lo_def Z_def)
  have hi: "place_hi L a b r = min (b - a) (Z + L - a)"
    by (simp add: place_hi_def Z_def algebra_simps)
  have mono1: "X \<le> Z" unfolding X_def Z_def using r(1) L by (simp add: mult_right_mono)
  have mono2: "Z + L \<le> Y"
  proof -
    have "(r + 1) * L \<le> en * L" using r(2) L by (intro mult_right_mono) simp_all
    then show ?thesis by (simp add: Y_def Z_def algebra_simps)
  qed
  consider (one) "r = st" "r = en - 1" | (first) "r = st" "r \<noteq> en - 1"
    | (last) "r \<noteq> st" "r = en - 1" | (mid) "r \<noteq> st" "r \<noteq> en - 1"
    by blast
  then show ?thesis
  proof cases
    case one
    then have "Z = X" "Y = X + L" by (simp_all add: X_def Y_def Z_def algebra_simps)
    then have "place_lo L a r = 0" "place_hi L a b r = b - a"
      using lo hi a b f by simp_all
    moreover have "so = 0 + a - r * L" "eo = b - a + a - r * L"
      using a b \<open>Z = X\<close> \<open>Y = X + L\<close> by (simp_all add: Z_def)
    ultimately show ?thesis
      using one ts by (simp add: axis_offsets_indices_def ebind_def)
  next
    case first
    then have zx: "Z = X" by (simp add: X_def Z_def)
    have "st + 2 \<le> en" using first r by simp
    then have "(st + 2) * L \<le> en * L" using L by (intro mult_right_mono) simp_all
    then have y: "X + 2 * L \<le> Y" by (simp add: X_def Y_def algebra_simps)
    have "place_lo L a r = 0" "place_hi L a b r = L - so"
      using lo hi a b f zx y by simp_all
    moreover have "so = 0 + a - r * L" "L = L - so + a - r * L"
      using a zx by (simp_all add: Z_def)
    ultimately show ?thesis
      using first by (simp add: axis_offsets_indices_def)
  next
    case last
    then have "en = r + 1" by simp
    then have zy: "Y = Z + L" unfolding Y_def Z_def by (simp only: distrib_right mult_1)
    have "st + 1 \<le> r" using last r by simp
    then have "(st + 1) * L \<le> r * L" using L by (intro mult_right_mono) simp_all
    then have x: "X + L \<le> Z" by (simp add: X_def Z_def algebra_simps)
    have "place_lo L a r = b - a - eo" "place_hi L a b r = b - a"
      using lo hi a b f zy x by simp_all
    moreover have "0 = b - a - eo + a - r * L" "eo = b - a + a - r * L"
      using b zy by (simp_all add: Z_def)
    ultimately show ?thesis
      using last ts by (simp add: axis_offsets_indices_def ebind_def)
  next
    case mid
    have "st + 1 \<le> r" using mid r by simp
    then have "(st + 1) * L \<le> r * L" using L by (intro mult_right_mono) simp_all
    then have x: "X + L \<le> Z" by (simp add: X_def Z_def algebra_simps)
    have "r + 2 \<le> en" using mid r by simp
    then have "(r + 2) * L \<le> en * L" using L by (intro mult_right_mono) simp_all
    then have y: "Z + 2 * L \<le> Y" by (simp add: Y_def Z_def algebra_simps)
    have plo: "place_lo L a r = Z - a" and phi: "place_hi L a b r = Z + L - a"
      using lo hi a b f x y by simp_all
    have left: "L - so + (r - st - 1) * L = Z - a"
      using a by (simp add: X_def Z_def algebra_simps)
    have "0 = Z - a + a - r * L" "L = Z + L - a + a - r * L"
      by (simp_all add: Z_def)
    then show ?thesis
      using mid rl plo phi left
      by (simp add: axis_offsets_indices_def ebind_def Let_def)
  qed
qed

lemma src_tile_length_pos:
  assumes "evenly_tiled a" "i < tensor_rank a"
  shows "0 < src_tile_length a i"
    and "tensor_shape a ! i = src_tile_length a i * vda_tile_shape a ! i"
proof -
  from assms have n: "0 < vda_tile_shape a ! i" and d: "0 < tensor_shape a ! i"
    and m: "tensor_shape a ! i mod vda_tile_shape a ! i = 0"
    by (simp_all add: evenly_tiled_def)
  from m show eq: "tensor_shape a ! i = src_tile_length a i * vda_tile_shape a ! i"
    unfolding src_tile_length_def by (simp add: mod_eq_0_iff_dvd)
  show "0 < src_tile_length a i"
  proof (rule ccontr)
    assume "\<not> 0 < src_tile_length a i"
    then have "src_tile_length a i * vda_tile_shape a ! i \<le> 0"
      using n by (simp add: mult_le_0_iff)
    with eq d show False
      by simp
  qed
qed

lemma related_on_axis_eq:
  assumes ev: "evenly_tiled (src_array :: VirtualDistributedArray)"
    and tw: "tile_within (tensor_shape src_array) T"
    and i: "i < tensor_rank src_array"
  shows "related_on_axis src_array T i (tensor_shape src_array ! i) =
     Inr (axis_rel (src_tile_length src_array i) (tile_start T i) (tile_stop T i))"
proof -
  have n: "0 < vda_tile_shape src_array ! i" "i < length (vda_tile_shape src_array)"
    and m: "tensor_shape src_array ! i mod vda_tile_shape src_array ! i = 0"
    using ev i by (simp_all add: evenly_tiled_def)
  have L: "0 < src_tile_length src_array i"
    using src_tile_length_pos[OF ev i] by simp
  have t: "i < length (indices T)"
    "indices T ! i = Slice (Some (tile_start T i)) (Some (tile_stop T i))"
    using tw i by (simp_all add: tile_within_def tensor_rank_def)
  show ?thesis
    using n m L t
    by (simp add: related_on_axis_def ebind_def list_get_def py_divmod_def py_assert_def
        axis_rel_def Let_def src_tile_length_def)
qed

lemma related_loop_eq_gen:
  assumes ev: "evenly_tiled (src_array :: VirtualDistributedArray)"
    and tw: "tile_within (tensor_shape src_array) T"
  shows "dims = drop i (tensor_shape src_array) \<Longrightarrow>
     related_loop src_array T i dims =
       Inr (map (\<lambda>j. axis_rel (src_tile_length src_array j) (tile_start T j) (tile_stop T j))
              [i..<tensor_rank src_array])"
proof (induction dims arbitrary: i)
  case Nil
  then have "tensor_rank src_array \<le> i"
    by (simp add: tensor_rank_def)
  then show ?case
    by simp
next
  case (Cons d ds)
  then have i: "i < tensor_rank src_array"
    by (metis drop_eq_Nil linorder_not_less list.distinct(1) tensor_rank_def)
  have d: "d = tensor_shape src_array ! i" and ds: "ds = drop (Suc i) (tensor_shape src_array)"
    using Cons.prems i
    by (metis Cons_nth_drop_Suc list.inject tensor_rank_def)+
  have "[i..<tensor_rank src_array] = i # [Suc i..<tensor_rank src_array]"
    using i by (simp add: upt_conv_Cons)
  then show ?case
    using Cons.IH[OF ds] related_on_axis_eq[OF ev tw i] d
    by simp
qed

lemma related_loop_eq:
  assumes "evenly_tiled (src_array :: VirtualDistributedArray)"
    and "tile_within (tensor_shape src_array) T"
  shows "related_loop src_array T 0 (tensor_shape src_array) =
       Inr (map (\<lambda>j. axis_rel (src_tile_length src_array j) (tile_start T j) (tile_stop T j))
              [0..<tensor_rank src_array])"
  using related_loop_eq_gen[OF assms, of "tensor_shape src_array" 0] by simp

lemma prod_list_nonneg_int:
  "\<forall>n\<in>set ns. (0::int) \<le> n \<Longrightarrow> 0 \<le> prod_list ns"
  by (induction ns) simp_all

lemma unflatten_in_shape:
  "\<forall>n\<in>set ns. 0 \<le> n \<Longrightarrow> 0 \<le> k \<Longrightarrow> k < prod_list ns \<Longrightarrow>
   in_shape ns (unflatten_tile_index k ns)"
proof (induction ns arbitrary: k)
  case Nil
  then show ?case
    by (simp add: in_shape_def)
next
  case (Cons n ns)
  let ?P = "prod_list ns"
  have P0: "0 \<le> ?P"
    using Cons.prems(1) by (intro prod_list_nonneg_int) simp
  have "?P \<noteq> 0"
    using Cons.prems(2,3) by auto
  with P0 have P: "0 < ?P"
    by simp
  have m: "0 \<le> k mod ?P" "k mod ?P < ?P"
    using P by simp_all
  have d0: "0 \<le> k div ?P"
    using Cons.prems(2) P by (simp add: pos_imp_zdiv_nonneg_iff)
  have "k div ?P * ?P \<le> k"
    using P by (metis div_mult_mod_eq le_add_same_cancel1 m(1))
  with Cons.prems(3) have "k div ?P * ?P < n * ?P"
    by simp
  then have d1: "k div ?P < n"
    using P by (simp add: mult_less_cancel_right)
  have "in_shape ns (unflatten_tile_index (k mod ?P) ns)"
    using Cons.IH[of "k mod ?P"] Cons.prems(1) m by simp
  with d0 d1 show ?case
    by (simp add: in_shape_def)
qed

lemma unflatten_inj:
  "\<forall>n\<in>set ns. 0 \<le> n \<Longrightarrow> 0 \<le> k \<Longrightarrow> k < prod_list ns \<Longrightarrow> 0 \<le> k' \<Longrightarrow>
   k' < prod_list ns \<Longrightarrow> unflatten_tile_index k ns = unflatten_tile_index k' ns \<Longrightarrow> k = k'"
proof (induction ns arbitrary: k k')
  case Nil
  then show ?case
    by simp
next
  case (Cons n ns)
  let ?P = "prod_list ns"
  have P0: "0 \<le> ?P"
    using Cons.prems(1) by (intro prod_list_nonneg_int) simp
  have "?P \<noteq> 0"
    using Cons.prems(2,3) by auto
  with P0 have P: "0 < ?P"
    by simp
  from Cons.prems(6) have d: "k div ?P = k' div ?P"
    and u: "unflatten_tile_index (k mod ?P) ns = unflatten_tile_index (k' mod ?P) ns"
    by simp_all
  have "k mod ?P = k' mod ?P"
    using Cons.IH[OF _ _ _ _ _ u] Cons.prems(1) P by simp
  with d show ?case
    by (metis div_mult_mod_eq)
qed

lemma unflatten_surj:
  "in_shape ns c \<Longrightarrow> \<exists>k. 0 \<le> k \<and> k < prod_list ns \<and> unflatten_tile_index k ns = c"
  unfolding in_shape_def
proof (induction ns c rule: list_all2_induct)
  case Nil
  show ?case
    by (rule exI[of _ 0]) simp
next
  case (Cons n ns x xs)
  let ?P = "prod_list ns"
  from Cons.IH obtain k' where k': "0 \<le> k'" "k' < ?P" "unflatten_tile_index k' ns = xs"
    by blast
  then have P: "0 < ?P"
    by simp
  let ?k = "x * ?P + k'"
  have x: "0 \<le> x" "x < n"
    using Cons.hyps(1) by simp_all
  have k0: "0 \<le> ?k"
    using x k' P by simp
  have "x + 1 \<le> n"
    using x by simp
  then have "(x + 1) * ?P \<le> n * ?P"
    using P by (intro mult_right_mono) simp_all
  then have k1: "?k < n * ?P"
    using k' by (simp add: algebra_simps)
  have dv: "?k div ?P = x"
    using P k' by (simp add: div_eq_iff_int algebra_simps)
  have md: "?k mod ?P = k'"
    using P k' by simp
  show ?case
    using k0 k1 dv md k'(3) by (intro exI[of _ ?k]) simp
qed

lemma ravel_index_in_shape:
  "in_shape ns c \<Longrightarrow> \<exists>f. ravel_index ns c = Inr f \<and> 0 \<le> f \<and> f < prod_list ns"
  unfolding in_shape_def
proof (induction ns c rule: list_all2_induct)
  case Nil
  then show ?case
    by simp
next
  case (Cons n ns x xs)
  let ?P = "prod_list ns"
  from Cons.IH obtain f where f: "ravel_index ns xs = Inr f" "0 \<le> f" "f < ?P"
    by blast
  then have P: "0 < ?P"
    by simp
  have x: "0 \<le> x" "x < n"
    using Cons.hyps(1) by simp_all
  have "x + 1 \<le> n"
    using x by simp
  then have "(x + 1) * ?P \<le> n * ?P"
    using P by (intro mult_right_mono) simp_all
  then have "x * ?P + f < n * ?P"
    using f by (simp add: algebra_simps)
  moreover have "0 \<le> x * ?P + f"
    using x f P by simp
  ultimately show ?case
    using x f by (simp add: Let_def)
qed

lemma tiles_get_in_shape:
  assumes ev: "evenly_tiled (a :: VirtualDistributedArray)"
    and c: "in_shape (vda_tile_shape a) c"
  shows "\<exists>t. tiles_get a c = Inr t \<and>
     tile_shape t = map (\<lambda>i. src_tile_length a i) [0..<tensor_rank a]"
proof -
  from ravel_index_in_shape[OF c] obtain f where
    f: "ravel_index (vda_tile_shape a) c = Inr f" "0 \<le> f" "f < prod_list (vda_tile_shape a)"
    by blast
  have len: "length (vda_tiles a) = nat (prod_list (vda_tile_shape a))"
    using ev by (simp add: evenly_tiled_def)
  have lt: "nat f < length (vda_tiles a)"
    using f len by simp
  then have "vda_tiles a ! nat f \<in> set (vda_tiles a)"
    by simp
  then have "tile_shape (vda_tiles a ! nat f) = map (\<lambda>i. src_tile_length a i) [0..<tensor_rank a]"
    using ev by (simp add: evenly_tiled_def)
  then show ?thesis
    using f lt by (simp add: tiles_get_def ebind_def list_get_def)
qed

lemma axis_rel_bounds:
  fixes L a b n :: int
  assumes L: "0 < L" and a: "0 \<le> a" and ab: "a \<le> b" and bn: "b \<le> L * n"
    and rel: "axis_rel L a b = ((st, en), (so, eo))"
  shows "0 \<le> st" "st \<le> en" "en \<le> n"
proof -
  note f = axis_rel_facts[OF L ab rel]
  show "st \<le> en"
    by (rule f(7))
  have "st = a div L"
    using rel by (simp add: axis_rel_def)
  then show "0 \<le> st"
    using a L by (simp add: pos_imp_zdiv_nonneg_iff)
  have "(en - 1) * L < b"
    using f(4,5) by simp
  with bn have "(en - 1) * L < n * L"
    by (simp add: mult.commute)
  then have "en - 1 < n"
    using L by (simp add: mult_less_cancel_right)
  then show "en \<le> n"
    by simp
qed

lemma rel_of_nth:
  "j < tensor_rank a \<Longrightarrow>
   rel_of a t ! j = axis_rel (src_tile_length a j) (tile_start t j) (tile_stop t j)"
  by (simp add: rel_of_def)

lemma length_rel_of: "length (rel_of a t) = tensor_rank a"
  by (simp add: rel_of_def)

lemma related_extents_nth:
  "j < length rel \<Longrightarrow> related_extents rel ! j = snd (fst (rel ! j)) - fst (fst (rel ! j))"
  by (simp add: related_extents_def split: prod.splits)

lemma length_related_extents: "length (related_extents rel) = length rel"
  by (simp add: related_extents_def)

lemma rel_of_axis:
  assumes ev: "evenly_tiled (a :: VirtualDistributedArray)"
    and tw: "tile_within (tensor_shape a) t" and j: "j < tensor_rank a"
  obtains st en so eo where
    "rel_of a t ! j = ((st, en), (so, eo))"
    "axis_rel (src_tile_length a j) (tile_start t j) (tile_stop t j) = ((st, en), (so, eo))"
    "0 \<le> st" "st \<le> en" "en \<le> vda_tile_shape a ! j"
proof -
  obtain st en so eo where
    r: "axis_rel (src_tile_length a j) (tile_start t j) (tile_stop t j) = ((st, en), (so, eo))"
    by (metis surj_pair)
  have L: "0 < src_tile_length a j"
    and d: "tensor_shape a ! j = src_tile_length a j * vda_tile_shape a ! j"
    using src_tile_length_pos[OF ev j] by simp_all
  have t: "0 \<le> tile_start t j" "tile_start t j \<le> tile_stop t j"
    "tile_stop t j \<le> tensor_shape a ! j"
    using tw j by (simp_all add: tile_within_def tensor_rank_def)
  from axis_rel_bounds[OF L t(1,2) _ r] t(3) d
  have "0 \<le> st" "st \<le> en" "en \<le> vda_tile_shape a ! j"
    by simp_all
  with r rel_of_nth[OF j, of t] show ?thesis
    by (intro that[of st en so eo]) simp_all
qed

lemma related_extents_nonneg:
  assumes ev: "evenly_tiled (a :: VirtualDistributedArray)"
    and tw: "tile_within (tensor_shape a) t"
  shows "\<forall>n\<in>set (related_extents (rel_of a t)). 0 \<le> n"
proof
  fix n
  assume "n \<in> set (related_extents (rel_of a t))"
  then obtain j where j: "j < tensor_rank a" and n: "n = related_extents (rel_of a t) ! j"
    by (metis in_set_conv_nth length_rel_of length_related_extents)
  from rel_of_axis[OF ev tw j] obtain st en so eo where
    "rel_of a t ! j = ((st, en), (so, eo))" "st \<le> en"
    by metis
  then show "0 \<le> n"
    using n j by (simp add: related_extents_nth length_rel_of)
qed

lemma absolute_index_gen:
  assumes "length rel \<le> length relc"
  shows "rest = drop i rel \<Longrightarrow>
     absolute_index relc i rest =
       Inr (map (\<lambda>j. fst (fst (rel ! j)) + relc ! j) [i..<length rel])"
proof (induction rest arbitrary: i)
  case Nil
  then show ?case
    by simp
next
  case (Cons x xs)
  then have i: "i < length rel"
    by (metis drop_eq_Nil linorder_not_less list.distinct(1))
  have x: "x = rel ! i" and xs: "xs = drop (Suc i) rel"
    using Cons.prems i by (metis Cons_nth_drop_Suc list.inject)+
  obtain st en off where xx: "x = ((st, en), off)"
    by (metis surj_pair)
  have ri: "rel ! i = ((st, en), off)"
    using x xx by simp
  have up: "[i..<length rel] = i # [Suc i..<length rel]"
    using i by (simp add: upt_conv_Cons)
  have "absolute_index relc i (((st, en), off) # xs) =
      Inr ((st + relc ! i) # map (\<lambda>j. fst (fst (rel ! j)) + relc ! j) [Suc i..<length rel])"
    using Cons.IH[OF xs] i assms by (simp add: list_get_def)
  then show ?case
    unfolding xx up by (simp add: ri)
qed

lemma absolute_index_eq:
  assumes "length (unflatten_tile_index k (related_extents (rel_of a t))) = tensor_rank a"
  shows "absolute_index (unflatten_tile_index k (related_extents (rel_of a t))) 0 (rel_of a t) =
     Inr (absolute_of a t k)"
  using absolute_index_gen[of "rel_of a t"
      "unflatten_tile_index k (related_extents (rel_of a t))" "rel_of a t" 0] assms
  by (simp add: absolute_of_def length_rel_of)

lemma in_shape_nth:
  "in_shape ns c \<longleftrightarrow> length c = length ns \<and> (\<forall>j<length ns. 0 \<le> c ! j \<and> c ! j < ns ! j)"
  unfolding in_shape_def list_all2_conv_all_nth by auto

lemma absolute_of_facts:
  assumes ev: "evenly_tiled (a :: VirtualDistributedArray)"
    and tw: "tile_within (tensor_shape a) t"
    and k: "0 \<le> k" "k < prod_list (related_extents (rel_of a t))"
  shows "length (unflatten_tile_index k (related_extents (rel_of a t))) = tensor_rank a"
    and "length (absolute_of a t k) = tensor_rank a"
    and "\<And>j. j < tensor_rank a \<Longrightarrow>
           fst (fst (rel_of a t ! j)) \<le> absolute_of a t k ! j \<and>
           absolute_of a t k ! j < snd (fst (rel_of a t ! j)) \<and>
           unflatten_tile_index k (related_extents (rel_of a t)) ! j =
             absolute_of a t k ! j - fst (fst (rel_of a t ! j))"
    and "in_shape (vda_tile_shape a) (absolute_of a t k)"
proof -
  let ?c = "unflatten_tile_index k (related_extents (rel_of a t))"
  have c: "in_shape (related_extents (rel_of a t)) ?c"
    using unflatten_in_shape[OF related_extents_nonneg[OF ev tw] k] .
  then show len: "length ?c = tensor_rank a"
    by (simp add: in_shape_nth length_related_extents length_rel_of)
  show la: "length (absolute_of a t k) = tensor_rank a"
    by (simp add: absolute_of_def)
  show b: "fst (fst (rel_of a t ! j)) \<le> absolute_of a t k ! j \<and>
           absolute_of a t k ! j < snd (fst (rel_of a t ! j)) \<and>
           ?c ! j = absolute_of a t k ! j - fst (fst (rel_of a t ! j))"
    if j: "j < tensor_rank a" for j
  proof -
    have "0 \<le> ?c ! j" "?c ! j < related_extents (rel_of a t) ! j"
      using c j by (simp_all add: in_shape_nth length_related_extents length_rel_of)
    then show ?thesis
      using j by (simp add: absolute_of_def related_extents_nth length_rel_of)
  qed
  have n: "length (vda_tile_shape a) = tensor_rank a"
    using ev by (simp add: evenly_tiled_def)
  show "in_shape (vda_tile_shape a) (absolute_of a t k)"
    unfolding in_shape_nth
  proof (intro conjI allI impI)
    show "length (absolute_of a t k) = length (vda_tile_shape a)"
      using la n by simp
  next
    fix j
    assume "j < length (vda_tile_shape a)"
    then have j: "j < tensor_rank a"
      using n by simp
    from rel_of_axis[OF ev tw j] obtain st en so eo where
      r: "rel_of a t ! j = ((st, en), (so, eo))" "0 \<le> st" "en \<le> vda_tile_shape a ! j"
      by metis
    with b[OF j] show "0 \<le> absolute_of a t k ! j" "absolute_of a t k ! j < vda_tile_shape a ! j"
      by simp_all
  qed
qed

lemma axes_loop_gen:
  assumes ev: "evenly_tiled (a :: VirtualDistributedArray)"
    and tw: "tile_within (tensor_shape a) t"
    and k: "0 \<le> k" "k < prod_list (related_extents (rel_of a t))"
    and tg: "tiles_get a (absolute_of a t k) = Inr stile"
      "tile_shape stile = map (\<lambda>i. src_tile_length a i) [0..<tensor_rank a]"
  shows "rs = drop i (absolute_of a t k) \<Longrightarrow>
     axes_loop a t (rel_of a t) (unflatten_tile_index k (related_extents (rel_of a t)))
       (absolute_of a t k) i rs =
     Inr (drop i (extraction_of a t (absolute_of a t k)),
          drop i (placement_of a t (absolute_of a t k)))"
proof (induction rs arbitrary: i)
  case Nil
  then have "tensor_rank a \<le> i"
    using absolute_of_facts(2)[OF ev tw k] by simp
  then show ?case
    by (simp add: extraction_of_def placement_of_def)
next
  case (Cons r rs)
  let ?abs = "absolute_of a t k"
  let ?c = "unflatten_tile_index k (related_extents (rel_of a t))"
  note af = absolute_of_facts[OF ev tw k]
  have i: "i < tensor_rank a"
    using Cons.prems af(2) by (metis drop_eq_Nil linorder_not_less list.distinct(1))
  have r: "r = ?abs ! i" and rs: "rs = drop (Suc i) ?abs"
    using Cons.prems i af(2) by (metis Cons_nth_drop_Suc list.inject)+
  from rel_of_axis[OF ev tw i] obtain st en so eo where
    rel: "rel_of a t ! i = ((st, en), (so, eo))"
    and ar: "axis_rel (src_tile_length a i) (tile_start t i) (tile_stop t i) = ((st, en), (so, eo))"
    by metis
  have L: "0 < src_tile_length a i"
    using src_tile_length_pos[OF ev i] by simp
  have tt: "tile_start t i \<le> tile_stop t i"
    "list_get (tile_shape t) i = Inr (tile_stop t i - tile_start t i)"
    using tw i by (simp_all add: tile_within_def tensor_rank_def list_get_def)
  have b: "st \<le> ?abs ! i" "?abs ! i < en" "?c ! i = ?abs ! i - st"
    using af(3)[OF i] rel by simp_all
  have cl: "list_get ?c i = Inr (?abs ! i - st)"
    using af(1) i b(3) by (simp add: list_get_def)
  have step: "axis_offsets_indices (st, en) (so, eo) t (src_tile_length a i) ?c i (?abs ! i) =
     Inr (Slice (Some (place_lo (src_tile_length a i) (tile_start t i) (?abs ! i) +
                       tile_start t i - ?abs ! i * src_tile_length a i))
                (Some (place_hi (src_tile_length a i) (tile_start t i) (tile_stop t i) (?abs ! i) +
                       tile_start t i - ?abs ! i * src_tile_length a i)),
          Slice (Some (place_lo (src_tile_length a i) (tile_start t i) (?abs ! i)))
                (Some (place_hi (src_tile_length a i) (tile_start t i) (tile_stop t i) (?abs ! i))))"
    by (rule axis_offsets_indices_closed[OF L tt(1) ar b(1,2) tt(2) cl])
  have lk: "list_get (rel_of a t) i = Inr ((st, en), (so, eo))"
    using rel i by (simp add: list_get_def length_rel_of)
  have stile: "ebind (tiles_get a ?abs) (\<lambda>t. list_get (tile_shape t) i) = Inr (src_tile_length a i)"
    using tg i by (simp add: ebind_def list_get_def)
  have d1: "drop i (extraction_of a t ?abs) =
      extraction_of a t ?abs ! i # drop (Suc i) (extraction_of a t ?abs)"
    using i Cons_nth_drop_Suc[of i "extraction_of a t ?abs"] by (simp add: extraction_of_def)
  have d2: "drop i (placement_of a t ?abs) =
      placement_of a t ?abs ! i # drop (Suc i) (placement_of a t ?abs)"
    using i Cons_nth_drop_Suc[of i "placement_of a t ?abs"] by (simp add: placement_of_def)
  have e1: "extraction_of a t ?abs ! i =
      Slice (Some (place_lo (src_tile_length a i) (tile_start t i) (?abs ! i) +
                       tile_start t i - ?abs ! i * src_tile_length a i))
                (Some (place_hi (src_tile_length a i) (tile_start t i) (tile_stop t i) (?abs ! i) +
                       tile_start t i - ?abs ! i * src_tile_length a i))"
    using i by (simp add: extraction_of_def)
  have e2: "placement_of a t ?abs ! i =
      Slice (Some (place_lo (src_tile_length a i) (tile_start t i) (?abs ! i)))
                (Some (place_hi (src_tile_length a i) (tile_start t i) (tile_stop t i) (?abs ! i)))"
    using i by (simp add: placement_of_def)
  show ?case
    unfolding d1 d2 e1 e2 r
    using Cons.IH[OF rs] lk stile step
    by simp
qed

lemma tileslice_at_eq:
  assumes ev: "evenly_tiled (a :: VirtualDistributedArray)"
    and tw: "tile_within (tensor_shape a) t"
    and k: "0 \<le> k" "k < prod_list (related_extents (rel_of a t))"
  shows "\<exists>stile. tileslice_at a t (rel_of a t) k =
     Inr (TileSlice_init stile (extraction_of a t (absolute_of a t k)),
          placement_of a t (absolute_of a t k))"
proof -
  note af = absolute_of_facts[OF ev tw k]
  from tiles_get_in_shape[OF ev af(4)] obtain stile where
    tg: "tiles_get a (absolute_of a t k) = Inr stile"
      "tile_shape stile = map (\<lambda>i. src_tile_length a i) [0..<tensor_rank a]"
    by blast
  have ax: "axes_loop a t (rel_of a t) (unflatten_tile_index k (related_extents (rel_of a t)))
       (absolute_of a t k) 0 (absolute_of a t k) =
     Inr (extraction_of a t (absolute_of a t k), placement_of a t (absolute_of a t k))"
    using axes_loop_gen[OF ev tw k tg, of "absolute_of a t k" 0] by simp
  show ?thesis
    using absolute_index_eq[OF af(1)] ax tg(1)
    by (intro exI[of _ stile]) (simp add: tileslice_at_def ebind_def Let_def)
qed

lemma tileslices_loop_eq:
  assumes ev: "evenly_tiled (a :: VirtualDistributedArray)"
    and tw: "tile_within (tensor_shape a) t"
  shows "\<forall>k\<in>set ks. 0 \<le> k \<and> k < prod_list (related_extents (rel_of a t)) \<Longrightarrow>
    \<exists>sl. tileslices_loop a t (rel_of a t) ks =
       Inr (sl, map (\<lambda>k. placement_of a t (absolute_of a t k)) ks) \<and>
       length sl = length ks \<and>
       (\<forall>n<length ks. offset (sl ! n) = extraction_of a t (absolute_of a t (ks ! n)))"
proof (induction ks)
  case Nil
  then show ?case
    by simp
next
  case (Cons k ks)
  from Cons.prems have k: "0 \<le> k" "k < prod_list (related_extents (rel_of a t))"
    by simp_all
  from tileslice_at_eq[OF ev tw k] obtain stile where
    h: "tileslice_at a t (rel_of a t) k =
     Inr (TileSlice_init stile (extraction_of a t (absolute_of a t k)),
          placement_of a t (absolute_of a t k))"
    by blast
  from Cons.IH Cons.prems obtain sl where
    sl: "tileslices_loop a t (rel_of a t) ks =
       Inr (sl, map (\<lambda>k. placement_of a t (absolute_of a t k)) ks)"
      "length sl = length ks"
      "\<forall>n<length ks. offset (sl ! n) = extraction_of a t (absolute_of a t (ks ! n))"
    by auto
  let ?s = "TileSlice_init stile (extraction_of a t (absolute_of a t k))"
  have o: "offset ?s = extraction_of a t (absolute_of a t k)"
    by (simp add: TileSlice_init_def)
  have "\<forall>n<length (k # ks). offset ((?s # sl) ! n) =
      extraction_of a t (absolute_of a t ((k # ks) ! n))"
    using sl(3) o by (auto simp: nth_Cons split: nat.splits)
  then show ?case
    using h sl(1,2) by (intro exI[of _ "?s # sl"]) simp
qed

lemma look_up_closed:
  assumes ev: "evenly_tiled (src self)"
    and tw: "tile_within (tensor_shape (src self)) t"
  shows "\<exists>sl. look_up_dst_tile_from_src self t =
      Inr (sl, map (\<lambda>k. placement_of (src self) t (absolute_of (src self) t (int k)))
                 [0..<nat (prod_list (related_extents (rel_of (src self) t)))]) \<and>
      length sl = nat (prod_list (related_extents (rel_of (src self) t))) \<and>
      (\<forall>n<nat (prod_list (related_extents (rel_of (src self) t))).
         offset (sl ! n) = extraction_of (src self) t (absolute_of (src self) t (int n)))"
proof -
  let ?a = "src self"
  let ?N = "nat (prod_list (related_extents (rel_of ?a t)))"
  have rl: "related_loop ?a t 0 (tensor_shape ?a) = Inr (rel_of ?a t)"
    using related_loop_eq[OF ev tw] by (simp add: rel_of_def)
  have "\<forall>k\<in>set (map int [0..<?N]). 0 \<le> k \<and> k < prod_list (related_extents (rel_of ?a t))"
    by auto
  from tileslices_loop_eq[OF ev tw this] obtain sl where
    sl: "tileslices_loop ?a t (rel_of ?a t) (map int [0..<?N]) =
       Inr (sl, map (\<lambda>k. placement_of ?a t (absolute_of ?a t k)) (map int [0..<?N]))"
      "length sl = length (map int [0..<?N])"
      "\<forall>n<length (map int [0..<?N]).
          offset (sl ! n) = extraction_of ?a t (absolute_of ?a t (map int [0..<?N] ! n))"
    by blast
  have "look_up_dst_tile_from_src self t =
      Inr (sl, map (\<lambda>k. placement_of ?a t (absolute_of ?a t (int k))) [0..<?N])"
    using rl sl(1) by (simp add: look_up_dst_tile_from_src_def ebind_def Let_def comp_def)
  moreover have "length sl = ?N"
    using sl(2) by simp
  moreover have "\<forall>n<?N. offset (sl ! n) = extraction_of ?a t (absolute_of ?a t (int n))"
    using sl(3) by simp
  ultimately show ?thesis
    by blast
qed

lemma same_extent_extraction_placement:
  "list_all2 same_extent (extraction_of a t idx) (placement_of a t idx)"
  by (simp add: list_all2_conv_all_nth extraction_of_def placement_of_def same_extent_def)

lemma in_slices_placement_iff:
  assumes ev: "evenly_tiled (a :: VirtualDistributedArray)"
  shows "in_slices (placement_of a t idx) p \<longleftrightarrow>
     length p = tensor_rank a \<and>
     (\<forall>j<tensor_rank a. 0 \<le> p ! j \<and> p ! j < tile_stop t j - tile_start t j \<and>
        (p ! j + tile_start t j) div src_tile_length a j = idx ! j)"
proof -
  have "in_slices (placement_of a t idx) p \<longleftrightarrow>
     length p = tensor_rank a \<and>
     (\<forall>j<tensor_rank a.
        place_lo (src_tile_length a j) (tile_start t j) (idx ! j) \<le> p ! j \<and>
        p ! j < place_hi (src_tile_length a j) (tile_start t j) (tile_stop t j) (idx ! j))"
    by (auto simp: in_slices_def list_all2_conv_all_nth placement_of_def in_slice_def)
  also have "\<dots> \<longleftrightarrow> length p = tensor_rank a \<and>
     (\<forall>j<tensor_rank a. 0 \<le> p ! j \<and> p ! j < tile_stop t j - tile_start t j \<and>
        (p ! j + tile_start t j) div src_tile_length a j = idx ! j)"
    using in_place_iff[OF src_tile_length_pos(1)[OF ev]] by blast
  finally show ?thesis .
qed

lemma in_shape_tile_iff:
  assumes tw: "tile_within (tensor_shape a) t"
  shows "in_shape (tile_shape t) p \<longleftrightarrow>
     length p = tensor_rank a \<and>
     (\<forall>j<tensor_rank a. 0 \<le> p ! j \<and> p ! j < tile_stop t j - tile_start t j)"
  using tw unfolding in_shape_nth tile_within_def tensor_rank_def by auto

lemma source_tile_of_point:
  assumes ev: "evenly_tiled (a :: VirtualDistributedArray)"
    and tw: "tile_within (tensor_shape a) t"
    and j: "j < tensor_rank a"
    and p: "0 \<le> x" "x < tile_stop t j - tile_start t j"
  shows "fst (fst (rel_of a t ! j)) \<le> (x + tile_start t j) div src_tile_length a j"
    and "(x + tile_start t j) div src_tile_length a j < snd (fst (rel_of a t ! j))"
proof -
  let ?L = "src_tile_length a j"
  let ?q = "(x + tile_start t j) div ?L"
  from rel_of_axis[OF ev tw j] obtain st en so eo where
    rel: "rel_of a t ! j = ((st, en), (so, eo))"
    and ar: "axis_rel ?L (tile_start t j) (tile_stop t j) = ((st, en), (so, eo))"
    by metis
  have L: "0 < ?L"
    using src_tile_length_pos[OF ev j] by simp
  have ab: "tile_start t j \<le> tile_stop t j"
    using p by simp
  note f = axis_rel_facts[OF L ab ar]
  have "st = tile_start t j div ?L"
    using ar by (simp add: axis_rel_def)
  moreover have "tile_start t j div ?L \<le> ?q"
    using p(1) L by (intro zdiv_mono1) simp_all
  ultimately show "fst (fst (rel_of a t ! j)) \<le> ?q"
    using rel by simp
  have "?q * ?L \<le> x + tile_start t j"
    using div_eq_iff_int[OF L, of "x + tile_start t j" ?q] by simp
  also have "\<dots> < tile_stop t j"
    using p(2) by simp
  also have "\<dots> \<le> en * ?L"
    using f(4,6) by (simp add: algebra_simps)
  finally have "?q < en"
    using L by (simp add: mult_less_cancel_right)
  then show "?q < snd (fst (rel_of a t ! j))"
    using rel by simp
qed

lemma point_in_some_slice:
  assumes ev: "evenly_tiled (a :: VirtualDistributedArray)"
    and tw: "tile_within (tensor_shape a) t"
    and p: "in_shape (tile_shape t) p"
  shows "\<exists>n<nat (prod_list (related_extents (rel_of a t))).
           in_slices (placement_of a t (absolute_of a t (int n))) p"
proof -
  let ?r = "tensor_rank a"
  let ?ext = "related_extents (rel_of a t)"
  let ?q = "\<lambda>j. (p ! j + tile_start t j) div src_tile_length a j"
  let ?c = "map (\<lambda>j. ?q j - fst (fst (rel_of a t ! j))) [0..<?r]"
  from p have lp: "length p = ?r"
    and pj: "\<And>j. j < ?r \<Longrightarrow> 0 \<le> p ! j \<and> p ! j < tile_stop t j - tile_start t j"
    using in_shape_tile_iff[OF tw] by auto
  have "in_shape ?ext ?c"
    unfolding in_shape_nth
  proof (intro conjI allI impI)
    show "length ?c = length ?ext"
      by (simp add: length_related_extents length_rel_of)
  next
    fix j
    assume "j < length ?ext"
    then have j: "j < ?r"
      by (simp add: length_related_extents length_rel_of)
    note s = source_tile_of_point[OF ev tw j] pj[OF j]
    show "0 \<le> ?c ! j"
      using j s(1)[of "p ! j"] s(3) by simp
    show "?c ! j < ?ext ! j"
      using j s(2)[of "p ! j"] s(3) by (simp add: related_extents_nth length_rel_of)
  qed
  from unflatten_surj[OF this] obtain k where
    k: "0 \<le> k" "k < prod_list ?ext" "unflatten_tile_index k ?ext = ?c"
    by blast
  have abs: "absolute_of a t k ! j = ?q j" if "j < ?r" for j
    using that k(3) by (simp add: absolute_of_def)
  have "in_slices (placement_of a t (absolute_of a t k)) p"
    unfolding in_slices_placement_iff[OF ev] using lp pj abs by simp
  moreover have "nat k < nat (prod_list ?ext)" "int (nat k) = k"
    using k by simp_all
  ultimately show ?thesis
    by metis
qed

lemma slices_disjoint:
  assumes ev: "evenly_tiled (a :: VirtualDistributedArray)"
    and tw: "tile_within (tensor_shape a) t"
    and n: "n < nat (prod_list (related_extents (rel_of a t)))"
    and m: "m < nat (prod_list (related_extents (rel_of a t)))"
    and pn: "in_slices (placement_of a t (absolute_of a t (int n))) p"
    and pm: "in_slices (placement_of a t (absolute_of a t (int m))) p"
  shows "n = m"
proof -
  let ?r = "tensor_rank a"
  let ?ext = "related_extents (rel_of a t)"
  have kn: "0 \<le> int n" "int n < prod_list ?ext" and km: "0 \<le> int m" "int m < prod_list ?ext"
    using n m by simp_all
  note an = absolute_of_facts[OF ev tw kn]
  note am = absolute_of_facts[OF ev tw km]
  have "unflatten_tile_index (int n) ?ext = unflatten_tile_index (int m) ?ext"
  proof (rule nth_equalityI)
    show "length (unflatten_tile_index (int n) ?ext) = length (unflatten_tile_index (int m) ?ext)"
      using an(1) am(1) by simp
  next
    fix j
    assume "j < length (unflatten_tile_index (int n) ?ext)"
    then have j: "j < ?r"
      using an(1) by simp
    have "absolute_of a t (int n) ! j = absolute_of a t (int m) ! j"
      using pn pm j unfolding in_slices_placement_iff[OF ev] by simp
    then show "unflatten_tile_index (int n) ?ext ! j = unflatten_tile_index (int m) ?ext ! j"
      using an(3)[OF j] am(3)[OF j] by simp
  qed
  from unflatten_inj[OF related_extents_nonneg[OF ev tw] kn km this] show ?thesis
    by simp
qed

lemma slice_within_tile:
  assumes ev: "evenly_tiled (a :: VirtualDistributedArray)"
    and tw: "tile_within (tensor_shape a) t"
    and "in_slices (placement_of a t idx) p"
  shows "in_shape (tile_shape t) p"
  using assms(3) unfolding in_slices_placement_iff[OF ev] in_shape_tile_iff[OF tw] by simp

text \<open>
  C1. For a source array that is tiled evenly and a destination tile \<open>tile\<close> within the
  array, \<open>look_up_dst_tile_from_src\<close> (the source's \<^verbatim>\<open>_look_up_dst_tile_from_src\<close>) returns
  a list of tile slices and a list of placements of the same length such that: on every
  axis the offset of a tile slice is as long as its placement; a point lies in the local
  index space \<open>[0, tile_shape tile ! 0) x ...\<close> of the tile exactly when it lies in one of the
  placements; and no point lies in two placements.
\<close>

theorem look_up_dst_tile_from_src_tiles_dst_tile:
  assumes "evenly_tiled (src self)" and "tile_within (tensor_shape (src self)) tile"
  shows "\<exists>src_tileslices indices_in_dst_tile.
     look_up_dst_tile_from_src self tile = Inr (src_tileslices, indices_in_dst_tile) \<and>
     length src_tileslices = length indices_in_dst_tile \<and>
     (\<forall>n<length indices_in_dst_tile.
        list_all2 same_extent (offset (src_tileslices ! n)) (indices_in_dst_tile ! n)) \<and>
     (\<forall>p. in_shape (tile_shape tile) p \<longleftrightarrow>
        (\<exists>n<length indices_in_dst_tile. in_slices (indices_in_dst_tile ! n) p)) \<and>
     (\<forall>n<length indices_in_dst_tile. \<forall>m<length indices_in_dst_tile.
        n \<noteq> m \<longrightarrow> \<not> (\<exists>p. in_slices (indices_in_dst_tile ! n) p \<and>
                            in_slices (indices_in_dst_tile ! m) p))"
proof -
  let ?a = "src self"
  let ?N = "nat (prod_list (related_extents (rel_of ?a tile)))"
  let ?idx = "map (\<lambda>k. placement_of ?a tile (absolute_of ?a tile (int k))) [0..<?N]"
  note ev = assms(1) and tw = assms(2)
  from look_up_closed[OF ev tw] obtain sl where
    run: "look_up_dst_tile_from_src self tile = Inr (sl, ?idx)"
    and len: "length sl = ?N"
    and off: "\<forall>n<?N. offset (sl ! n) = extraction_of ?a tile (absolute_of ?a tile (int n))"
    by blast
  have li: "length ?idx = ?N"
    by simp
  have nth: "?idx ! n = placement_of ?a tile (absolute_of ?a tile (int n))" if "n < ?N" for n
    using that by simp
  have ext: "\<forall>n<length ?idx. list_all2 same_extent (offset (sl ! n)) (?idx ! n)"
    using off same_extent_extraction_placement by simp
  have cover: "in_shape (tile_shape tile) p \<longleftrightarrow> (\<exists>n<length ?idx. in_slices (?idx ! n) p)" for p
  proof
    assume "in_shape (tile_shape tile) p"
    from point_in_some_slice[OF ev tw this] show "\<exists>n<length ?idx. in_slices (?idx ! n) p"
      using nth li by metis
  next
    assume "\<exists>n<length ?idx. in_slices (?idx ! n) p"
    then obtain n where "n < ?N" "in_slices (?idx ! n) p"
      using li by metis
    then have "in_slices (placement_of ?a tile (absolute_of ?a tile (int n))) p"
      using nth by simp
    then show "in_shape (tile_shape tile) p"
      by (rule slice_within_tile[OF ev tw])
  qed
  have disj: "\<not> (\<exists>p. in_slices (?idx ! n) p \<and> in_slices (?idx ! m) p)"
    if "n < length ?idx" "m < length ?idx" "n \<noteq> m" for n m
  proof
    assume "\<exists>p. in_slices (?idx ! n) p \<and> in_slices (?idx ! m) p"
    then obtain p where "in_slices (?idx ! n) p" "in_slices (?idx ! m) p"
      by blast
    then have "in_slices (placement_of ?a tile (absolute_of ?a tile (int n))) p"
      "in_slices (placement_of ?a tile (absolute_of ?a tile (int m))) p"
      using that nth li by simp_all
    from slices_disjoint[OF ev tw _ _ this] that show False
      using li by simp
  qed
  show ?thesis
    using run len li ext cover disj
    by (intro exI[of _ sl] exI[of _ ?idx]) (simp only: simp_thms, blast)
qed

lemma evenly_tiled_array_4x4_rows: "evenly_tiled (src spec_4x4)"
  by (simp add: evenly_tiled_def spec_4x4_def ReshardingTaskSpec_init_def array_4x4_rows_def
      tensor_rank_def tensor_shape_def new_tile_def src_tile_length_def numeral_2_eq_2
      less_Suc_eq)

lemma tile_within_tile_1_4_2_4: "tile_within (tensor_shape (src spec_4x4)) tile_1_4_2_4"
  by (simp add: tile_within_def spec_4x4_def ReshardingTaskSpec_init_def array_4x4_rows_def
      tensor_shape_def tile_1_4_2_4_def new_tile_def tile_start_def tile_stop_def
      numeral_2_eq_2 less_Suc_eq)

theorem look_up_dst_tile_from_src_tiles_dst_tile_witness:
  "map_sum id snd (look_up_dst_tile_from_src spec_4x4 tile_1_4_2_4) =
     Inr [[Slice (Some 0) (Some 1), Slice (Some 0) (Some 2)],
          [Slice (Some 1) (Some 3), Slice (Some 0) (Some 2)]] \<and>
   (\<exists>src_tileslices indices_in_dst_tile.
     look_up_dst_tile_from_src spec_4x4 tile_1_4_2_4 = Inr (src_tileslices, indices_in_dst_tile) \<and>
     length src_tileslices = length indices_in_dst_tile \<and>
     (\<forall>n<length indices_in_dst_tile.
        list_all2 same_extent (offset (src_tileslices ! n)) (indices_in_dst_tile ! n)) \<and>
     (\<forall>p. in_shape (tile_shape tile_1_4_2_4) p \<longleftrightarrow>
        (\<exists>n<length indices_in_dst_tile. in_slices (indices_in_dst_tile ! n) p)) \<and>
     (\<forall>n<length indices_in_dst_tile. \<forall>m<length indices_in_dst_tile.
        n \<noteq> m \<longrightarrow> \<not> (\<exists>p. in_slices (indices_in_dst_tile ! n) p \<and>
                            in_slices (indices_in_dst_tile ! m) p)))"
proof
  show "map_sum id snd (look_up_dst_tile_from_src spec_4x4 tile_1_4_2_4) =
     Inr [[Slice (Some 0) (Some 1), Slice (Some 0) (Some 2)],
          [Slice (Some 1) (Some 3), Slice (Some 0) (Some 2)]]"
    by code_simp
  show "\<exists>src_tileslices indices_in_dst_tile.
     look_up_dst_tile_from_src spec_4x4 tile_1_4_2_4 = Inr (src_tileslices, indices_in_dst_tile) \<and>
     length src_tileslices = length indices_in_dst_tile \<and>
     (\<forall>n<length indices_in_dst_tile.
        list_all2 same_extent (offset (src_tileslices ! n)) (indices_in_dst_tile ! n)) \<and>
     (\<forall>p. in_shape (tile_shape tile_1_4_2_4) p \<longleftrightarrow>
        (\<exists>n<length indices_in_dst_tile. in_slices (indices_in_dst_tile ! n) p)) \<and>
     (\<forall>n<length indices_in_dst_tile. \<forall>m<length indices_in_dst_tile.
        n \<noteq> m \<longrightarrow> \<not> (\<exists>p. in_slices (indices_in_dst_tile ! n) p \<and>
                            in_slices (indices_in_dst_tile ! m) p))"
    by (rule look_up_dst_tile_from_src_tiles_dst_tile
        [OF evenly_tiled_array_4x4_rows tile_within_tile_1_4_2_4])
qed

subsection \<open>The greedy choice of a sender\<close>

lemma dict_get_Inr: "dict_get d k = Inr v \<longleftrightarrow> map_of d k = Some v"
  by (simp add: dict_get_def split: option.splits)

lemma dict_get_load_of: "dict_get d k = Inr v \<Longrightarrow> load_of d k = v"
  by (simp add: dict_get_Inr load_of_def)

lemma map_of_dict_set: "map_of (dict_set d k v) = (map_of d)(k \<mapsto> v)"
  by (induction d) (auto simp: fun_eq_iff)

lemma load_of_dict_set: "load_of (dict_set d k v) k' = (if k' = k then v else load_of d k')"
  by (simp add: load_of_def map_of_dict_set)

lemma build_loads_Inr:
  "build_loads sl holders acc = Inr loads \<Longrightarrow>
     (\<forall>s\<in>set holders. map_of sl s \<noteq> None) \<and>
     loads = foldl (\<lambda>d s. dict_set d s (load_of sl s)) acc holders"
proof (induction holders arbitrary: acc)
  case Nil
  then show ?case
    by simp
next
  case (Cons h hs)
  from Cons.prems obtain l where l: "dict_get sl h = Inr l"
    and r: "build_loads sl hs (dict_set acc h l) = Inr loads"
    by (auto split: sum.splits)
  from l have "map_of sl h \<noteq> None" "load_of sl h = l"
    by (simp_all add: dict_get_Inr load_of_def)
  with Cons.IH[OF r] show ?case
    by simp
qed

lemma build_loads_total:
  "\<forall>s\<in>set holders. map_of sl s \<noteq> None \<Longrightarrow> \<exists>loads. build_loads sl holders acc = Inr loads"
proof (induction holders arbitrary: acc)
  case Nil
  then show ?case
    by simp
next
  case (Cons h hs)
  then obtain l where "map_of sl h = Some l"
    by auto
  then have "dict_get sl h = Inr l"
    by (simp add: dict_get_Inr)
  with Cons show ?case
    by simp
qed

lemma dict_set_keyed:
  "dict_set (map (\<lambda>k. (k, f k)) ks) s (f s) =
     map (\<lambda>k. (k, f k)) (if s \<in> set ks then ks else ks @ [s])"
  by (induction ks) auto

lemma foldl_dict_set_keyed:
  "foldl (\<lambda>d s. dict_set d s (f s)) (map (\<lambda>k. (k, f k)) ks) hs =
     map (\<lambda>k. (k, f k)) (foldl (\<lambda>ks s. if s \<in> set ks then ks else ks @ [s]) ks hs)"
proof (induction hs arbitrary: ks)
  case Nil
  show ?case
    by simp
next
  case (Cons h hs)
  show ?case
    using Cons.IH[of "if h \<in> set ks then ks else ks @ [h]"]
    by (simp add: dict_set_keyed del: dict_set.simps)
qed

lemma find_first_occurrences:
  "find P (foldl (\<lambda>ks s. if s \<in> set ks then ks else ks @ [s]) acc hs) =
     (case find P acc of Some x \<Rightarrow> Some x | None \<Rightarrow> find P hs)"
proof (induction hs arbitrary: acc)
  case Nil
  show ?case
    by (simp split: option.splits)
next
  case (Cons h hs)
  show ?case
  proof (cases "h \<in> set acc")
    case True
    then have "find P acc = None \<Longrightarrow> \<not> P h"
      by (auto simp: find_None_iff)
    then show ?thesis
      using Cons.IH[of acc] True by (auto split: option.splits)
  next
    case False
    have "find P (acc @ [h]) =
        (case find P acc of Some x \<Rightarrow> Some x | None \<Rightarrow> if P h then Some h else None)"
      by (induction acc) auto
    then show ?thesis
      using Cons.IH[of "acc @ [h]"] False by (auto split: option.splits)
  qed
qed

lemma set_first_occurrences:
  "set (foldl (\<lambda>ks s. if s \<in> set ks then ks else ks @ [s]) acc hs) = set acc \<union> set hs"
  by (induction hs arbitrary: acc) auto

lemma scan_keyed:
  "foldl (\<lambda>best kv'. if snd kv' < snd best then kv' else best) (b, f b)
      (map (\<lambda>k. (k, f k)) ks) =
   (foldl (\<lambda>best k. if f k < f best then k else best) b ks,
    f (foldl (\<lambda>best k. if f k < f best then k else best) b ks))"
  by (induction ks arbitrary: b) simp_all

lemma find_append_single:
  "find P (xs @ [x]) = (case find P xs of Some y \<Rightarrow> Some y | None \<Rightarrow> if P x then Some x else None)"
  by (induction xs) auto

lemma scan_first_min:
  fixes f :: "'a \<Rightarrow> nat"
  assumes "find (\<lambda>s. \<forall>s'\<in>set seen. f s \<le> f s') seen = Some best"
  shows "find (\<lambda>s. \<forall>s'\<in>set (seen @ rest). f s \<le> f s') (seen @ rest) =
     Some (foldl (\<lambda>best k. if f k < f best then k else best) best rest)"
  using assms
proof (induction rest arbitrary: seen best)
  case Nil
  then show ?case
    by simp
next
  case (Cons k rest)
  let ?P = "\<lambda>X s. \<forall>s'\<in>set X. f s \<le> f s'"
  from Cons.prems have bm: "?P seen best" and bs: "best \<in> set seen"
    by (auto simp: find_Some_iff)
  have step: "find (?P (seen @ [k])) (seen @ [k]) = Some (if f k < f best then k else best)"
  proof (cases "f k < f best")
    case True
    have "\<not> ?P (seen @ [k]) s" if "s \<in> set seen" for s
      using that bm True by (auto simp: not_le intro!: bexI[of _ k] dest: bspec[of _ _ s])
    then have "find (?P (seen @ [k])) seen = None"
      by (auto simp: find_None_iff)
    moreover have "?P (seen @ [k]) k"
      using bm True bs by (auto intro: less_imp_le order_trans)
    ultimately show ?thesis
      using True by (simp add: find_append_single)
  next
    case False
    have eq: "?P (seen @ [k]) s \<longleftrightarrow> ?P seen s \<and> f s \<le> f k" for s
      by auto
    from Cons.prems obtain i where i: "i < length seen" "?P seen (seen ! i)" "best = seen ! i"
      "\<forall>j<i. \<not> ?P seen (seen ! j)"
      by (auto simp: find_Some_iff)
    have "find (?P (seen @ [k])) seen = Some best"
      unfolding find_Some_iff
      using i False by (intro exI[of _ i]) (auto simp: not_less)
    then show ?thesis
      using False by (simp add: find_append_single)
  qed
  from Cons.IH[OF step] show ?case
    by simp
qed

lemma py_min_key_first_min:
  "py_min_key (map (\<lambda>k. (k, f k)) ks) =
     (case find (\<lambda>s. \<forall>s'\<in>set ks. f s \<le> f s') ks of
        None \<Rightarrow> Inl ValueError
      | Some s \<Rightarrow> Inr s)"
proof (cases ks)
  case Nil
  then show ?thesis
    by (simp add: py_min_key_def)
next
  case (Cons b rest)
  have "find (\<lambda>s. \<forall>s'\<in>set [b]. f s \<le> f s') [b] = Some b"
    by simp
  from scan_first_min[OF this, of rest]
  have "find (\<lambda>s. \<forall>s'\<in>set ks. f s \<le> f s') ks =
      Some (foldl (\<lambda>best k. if f k < f best then k else best) b rest)"
    using Cons by simp
  then show ?thesis
    using Cons scan_keyed[where f = f and b = b and ks = rest] by (simp add: py_min_key_def)
qed

lemma find_min_nonempty:
  fixes f :: "'a \<Rightarrow> nat"
  assumes "ks \<noteq> []"
  shows "\<exists>s. find (\<lambda>s. \<forall>s'\<in>set ks. f s \<le> f s') ks = Some s"
proof -
  obtain b rest where ks: "ks = b # rest"
    using assms by (cases ks) auto
  have "find (\<lambda>s. \<forall>s'\<in>set [b]. f s \<le> f s') [b] = Some b"
    by simp
  from scan_first_min[OF this, of rest] show ?thesis
    using ks by simp
qed

lemma choose_sender_first_min:
  assumes "build_loads sl holders [] = Inr loads"
  shows "py_min_key loads =
     (case first_min_holder sl holders of None \<Rightarrow> Inl ValueError | Some s \<Rightarrow> Inr s)"
proof -
  let ?f = "load_of sl"
  let ?U = "foldl (\<lambda>ks s. if s \<in> set ks then ks else ks @ [s]) [] holders"
  have "loads = foldl (\<lambda>d s. dict_set d s (?f s)) (map (\<lambda>k. (k, ?f k)) []) holders"
    using build_loads_Inr[OF assms] by simp
  then have loads: "loads = map (\<lambda>k. (k, ?f k)) ?U"
    by (simp only: foldl_dict_set_keyed)
  have su: "set ?U = set holders"
    by (simp add: set_first_occurrences)
  have "find (\<lambda>s. \<forall>s'\<in>set ?U. ?f s \<le> ?f s') ?U =
      find (\<lambda>s. \<forall>s'\<in>set holders. ?f s \<le> ?f s') holders"
    unfolding su by (simp add: find_first_occurrences)
  then show ?thesis
    unfolding loads py_min_key_first_min first_min_holder_def by simp
qed

lemma first_min_holder_Some:
  "first_min_holder sl holders = Some s \<Longrightarrow>
     s \<in> set holders \<and> (\<forall>s'\<in>set holders. load_of sl s \<le> load_of sl s')"
  by (auto simp: first_min_holder_def find_Some_iff)

lemma assign_sender_Inr:
  assumes "assign_sender slice_size receiver src_tileslice self = Inr (sender, self')"
  shows "first_min_holder (sender_loads self) (replica_device_strs src_tileslice) = Some sender"
    and "sender_loads self' =
      dict_set (sender_loads self) sender
        (load_of (sender_loads self) sender + slice_size src_tileslice)"
    and "receiver_loads self' =
      dict_set (receiver_loads self) receiver
        (load_of (receiver_loads self) receiver + slice_size src_tileslice)"
    and "\<forall>s\<in>set (replica_device_strs src_tileslice). map_of (sender_loads self) s \<noteq> None"
    and "map_of (receiver_loads self) receiver \<noteq> None"
proof -
  from assms obtain loads sl rl where
    b: "build_loads (sender_loads self) (replica_device_strs src_tileslice) [] = Inr loads"
    and m: "py_min_key loads = Inr sender"
    and s: "dict_get (sender_loads self) sender = Inr sl"
    and r: "dict_get (receiver_loads self) receiver = Inr rl"
    and e: "self' = self\<lparr>sender_loads :=
                        dict_set (sender_loads self) sender (sl + slice_size src_tileslice),
                      receiver_loads :=
                        dict_set (receiver_loads self) receiver (rl + slice_size src_tileslice)\<rparr>"
    by (auto simp: assign_sender_def ebind_def Let_def split: sum.splits)
  show "first_min_holder (sender_loads self) (replica_device_strs src_tileslice) = Some sender"
    using m choose_sender_first_min[OF b] by (auto split: option.splits)
  show "sender_loads self' =
      dict_set (sender_loads self) sender
        (load_of (sender_loads self) sender + slice_size src_tileslice)"
    using e dict_get_load_of[OF s] by simp
  show "receiver_loads self' =
      dict_set (receiver_loads self) receiver
        (load_of (receiver_loads self) receiver + slice_size src_tileslice)"
    using e dict_get_load_of[OF r] by simp
  show "\<forall>s\<in>set (replica_device_strs src_tileslice). map_of (sender_loads self) s \<noteq> None"
    using build_loads_Inr[OF b] by simp
  show "map_of (receiver_loads self) receiver \<noteq> None"
    using r by (simp add: dict_get_Inr)
qed

lemma assign_sender_total:
  assumes "replica_device_strs src_tileslice \<noteq> []"
    and "\<forall>s\<in>set (replica_device_strs src_tileslice). map_of (sender_loads self) s \<noteq> None"
    and "map_of (receiver_loads self) receiver \<noteq> None"
  shows "\<exists>sender self'. assign_sender slice_size receiver src_tileslice self = Inr (sender, self')"
proof -
  from build_loads_total[OF assms(2)] obtain loads where
    b: "build_loads (sender_loads self) (replica_device_strs src_tileslice) [] = Inr loads"
    by blast
  from find_min_nonempty[OF assms(1)] obtain sender where
    f: "first_min_holder (sender_loads self) (replica_device_strs src_tileslice) = Some sender"
    unfolding first_min_holder_def by blast
  then have m: "py_min_key loads = Inr sender"
    using choose_sender_first_min[OF b] by simp
  have "sender \<in> set (replica_device_strs src_tileslice)"
    using first_min_holder_Some[OF f] by simp
  then obtain sl where s: "dict_get (sender_loads self) sender = Inr sl"
    using assms(2) by (auto simp: dict_get_Inr)
  obtain rl where r: "dict_get (receiver_loads self) receiver = Inr rl"
    using assms(3) by (auto simp: dict_get_Inr)
  show ?thesis
    using b m s r by (simp add: assign_sender_def ebind_def Let_def)
qed

lemma run_assignments_append:
  "run_assignments sz (xs @ ys) st =
     (case run_assignments sz xs st of
        Inl e \<Rightarrow> Inl e
      | Inr (a, st') \<Rightarrow>
          (case run_assignments sz ys st' of
             Inl e \<Rightarrow> Inl e
           | Inr (b, st'') \<Rightarrow> Inr (a @ b, st'')))"
proof (induction xs arbitrary: st)
  case Nil
  show ?case
    by (simp split: sum.splits prod.splits)
next
  case (Cons x xs)
  obtain r s where x: "x = (r, s)"
    by (cases x)
  show ?case
    unfolding x using Cons.IH
    by (simp split: sum.splits prod.splits)
qed

lemma slices_loop_run:
  "slices_loop sz receiver slices st =
     run_assignments sz (map (\<lambda>s. (receiver, s)) slices) st"
  by (induction slices arbitrary: st) (simp_all split: sum.splits prod.splits)

lemma slices_loop_length:
  "slices_loop sz receiver slices st = Inr (row, st') \<Longrightarrow> length row = length slices"
  by (induction slices arbitrary: st row) (auto split: sum.splits prod.splits)

lemma receivers_loop_run:
  "run_assignments sz (concat (map (\<lambda>r. map (\<lambda>s. (r, s)) slices) rs)) st =
     map_sum id (\<lambda>(rows, st'). (concat rows, st')) (receivers_loop sz rs slices st)"
proof (induction rs arbitrary: st)
  case Nil
  show ?case
    by simp
next
  case (Cons r rs)
  show ?case
    using Cons.IH
    by (simp add: run_assignments_append slices_loop_run[symmetric]
        split: sum.splits prod.splits)
qed

lemma receivers_loop_shape:
  "receivers_loop sz rs slices st = Inr (rows, st') \<Longrightarrow>
     length rows = length rs \<and> (\<forall>row\<in>set rows. length row = length slices)"
proof (induction rs arbitrary: st rows)
  case Nil
  then show ?case
    by simp
next
  case (Cons r rs)
  from Cons.prems obtain row st1 rows' where
    a: "slices_loop sz r slices st = Inr (row, st1)"
    and b: "receivers_loop sz rs slices st1 = Inr (rows', st')" and c: "rows = row # rows'"
    by (auto split: sum.splits prod.splits)
  from Cons.IH[OF b] slices_loop_length[OF a] c show ?case
    by simp
qed

lemma plans_loop_run:
  "run_assignments sz (choices_of m) st =
     map_sum id (\<lambda>(plans, st'). (concat (concat plans), st')) (plans_loop sz m st)"
proof (induction m arbitrary: st)
  case Nil
  show ?case
    by (simp add: choices_of_def)
next
  case (Cons x m)
  obtain dst_tile slices ixs where x: "x = (dst_tile, slices, ixs)"
    by (cases x)
  have c: "choices_of ((dst_tile, slices, ixs) # m) =
      concat (map (\<lambda>r. map (\<lambda>s. (r, s)) slices) (replica_device_strs dst_tile)) @ choices_of m"
    by (simp add: choices_of_def)
  show ?case
    unfolding x c run_assignments_append receivers_loop_run
    using Cons.IH
    by (simp split: sum.splits prod.splits)
qed

lemma generate_strategy_run:
  assumes "generate_send_recv_resharding_strategy_by_loads sz spec st = Inr (strategy', st')"
  shows "\<exists>m. dst_tile_to_src_tiles_map spec = Inr m \<and>
     run_assignments sz (choices_of m) st = Inr (concat (concat (per_spec_plans strategy')), st') \<and>
     plans_loop sz m st = Inr (per_spec_plans strategy', st') \<and>
     is_local_allgather strategy' = (allgather_slice spec \<noteq> None)"
proof -
  from assms obtain m plans where
    m: "dst_tile_to_src_tiles_map spec = Inr m"
    and p: "plans_loop sz m st = Inr (plans, st')"
    and s: "strategy' = \<lparr>per_spec_plans = plans,
                          is_local_allgather = (allgather_slice spec \<noteq> None)\<rparr>"
    by (auto simp: generate_send_recv_resharding_strategy_by_loads_def ebind_def Let_def
        split: sum.splits prod.splits)
  have "run_assignments sz (choices_of m) st = Inr (concat (concat plans), st')"
    using plans_loop_run[of sz m st] p by simp
  with m p s show ?thesis
    by simp
qed

lemma generate_strategy_total:
  assumes "dst_tile_to_src_tiles_map spec = Inr m"
    and "run_assignments sz (choices_of m) st = Inr (senders, st')"
  shows "\<exists>strategy'. generate_send_recv_resharding_strategy_by_loads sz spec st =
            Inr (strategy', st') \<and>
          concat (concat (per_spec_plans strategy')) = senders"
proof -
  from assms(2) plans_loop_run[of sz m st] obtain plans where
    "plans_loop sz m st = Inr (plans, st')" "concat (concat plans) = senders"
    by (cases "plans_loop sz m st") auto
  then show ?thesis
    using assms(1)
    by (simp add: generate_send_recv_resharding_strategy_by_loads_def ebind_def Let_def)
qed

lemma strategies_loop_run:
  "strategies_loop sz specs st = Inr (specs', st') \<Longrightarrow>
     \<exists>ms. map dst_tile_to_src_tiles_map specs = map Inr ms \<and>
       run_assignments sz (concat (map choices_of ms)) st =
         Inr (concat (map (\<lambda>s. case strategy_field s of
                                  Some y \<Rightarrow> concat (concat (per_spec_plans y))
                                | None \<Rightarrow> []) specs'), st') \<and>
       length specs' = length specs"
proof (induction specs arbitrary: st specs')
  case Nil
  then show ?case
    by simp
next
  case (Cons spec specs)
  from Cons.prems obtain y st1 rest where
    g: "generate_send_recv_resharding_strategy_by_loads sz spec st = Inr (y, st1)"
    and r: "strategies_loop sz specs st1 = Inr (rest, st')"
    and e: "specs' = set_resharding_strategy spec y # rest"
    by (auto split: sum.splits prod.splits)
  from generate_strategy_run[OF g] obtain m where
    m: "dst_tile_to_src_tiles_map spec = Inr m"
    and rm: "run_assignments sz (choices_of m) st = Inr (concat (concat (per_spec_plans y)), st1)"
    by blast
  from Cons.IH[OF r] obtain ms where
    ms: "map dst_tile_to_src_tiles_map specs = map Inr ms"
    and rms: "run_assignments sz (concat (map choices_of ms)) st1 =
         Inr (concat (map (\<lambda>s. case strategy_field s of
                                  Some y \<Rightarrow> concat (concat (per_spec_plans y))
                                | None \<Rightarrow> []) rest), st')"
    and l: "length rest = length specs"
    by blast
  show ?case
    using m ms rm rms l e
    by (intro exI[of _ "m # ms"])
      (simp add: run_assignments_append set_resharding_strategy_def)
qed

lemma counters_cover_Nil: "counters_cover [] st"
  by (simp add: counters_cover_def)

lemma counters_cover_Cons:
  "counters_cover ((receiver, s) # cs) st \<longleftrightarrow>
     replica_device_strs s \<noteq> [] \<and>
     (\<forall>h\<in>set (replica_device_strs s). map_of (sender_loads st) h \<noteq> None) \<and>
     map_of (receiver_loads st) receiver \<noteq> None \<and> counters_cover cs st"
  by (auto simp: counters_cover_def)

lemma counters_cover_append:
  "counters_cover (cs @ cs') st \<longleftrightarrow> counters_cover cs st \<and> counters_cover cs' st"
  by (simp only: counters_cover_def set_append ball_Un)

lemma assign_sender_greedy:
  assumes "replica_device_strs s \<noteq> []"
    and "\<forall>h\<in>set (replica_device_strs s). map_of (sender_loads st) h \<noteq> None"
    and "map_of (receiver_loads st) receiver \<noteq> None"
  shows "\<exists>sender.
     first_min_holder (sender_loads st) (replica_device_strs s) = Some sender \<and>
     assign_sender sz receiver s st =
       Inr (sender, \<lparr>sender_loads = add_load (sender_loads st) sender (sz s),
                     receiver_loads = add_load (receiver_loads st) receiver (sz s)\<rparr>)"
proof -
  from assign_sender_total[OF assms] obtain sender st' where
    a: "assign_sender sz receiver s st = Inr (sender, st')"
    by blast
  from assign_sender_Inr(1,2,3)[OF a]
  have f: "first_min_holder (sender_loads st) (replica_device_strs s) = Some sender"
    and "sender_loads st' = add_load (sender_loads st) sender (sz s)"
    and "receiver_loads st' = add_load (receiver_loads st) receiver (sz s)"
    by (simp_all add: add_load_def)
  then have "st' = \<lparr>sender_loads = add_load (sender_loads st) sender (sz s),
                     receiver_loads = add_load (receiver_loads st) receiver (sz s)\<rparr>"
    by simp
  with a f show ?thesis
    by blast
qed

lemma assign_sender_covered:
  assumes "assign_sender sz receiver s st = Inr (sender, st')"
  shows "counters_cover [(receiver, s)] st"
proof -
  from assign_sender_Inr(1)[OF assms] have "sender \<in> set (replica_device_strs s)"
    by (simp add: first_min_holder_Some)
  then have "replica_device_strs s \<noteq> []"
    by auto
  with assign_sender_Inr(4,5)[OF assms] show ?thesis
    by (simp add: counters_cover_def)
qed

lemma map_of_dict_set_keys:
  "map_of d k \<noteq> None \<Longrightarrow> (map_of (dict_set d k v) k' \<noteq> None) = (map_of d k' \<noteq> None)"
  by (simp add: map_of_dict_set)

lemma assign_sender_keys:
  assumes "assign_sender sz receiver s st = Inr (sender, st')"
  shows "(map_of (sender_loads st') h \<noteq> None) = (map_of (sender_loads st) h \<noteq> None)"
    and "(map_of (receiver_loads st') h \<noteq> None) = (map_of (receiver_loads st) h \<noteq> None)"
proof -
  from assign_sender_Inr(1)[OF assms] have "sender \<in> set (replica_device_strs s)"
    by (simp add: first_min_holder_Some)
  with assign_sender_Inr(4)[OF assms] have k: "map_of (sender_loads st) sender \<noteq> None"
    by blast
  show "(map_of (sender_loads st') h \<noteq> None) = (map_of (sender_loads st) h \<noteq> None)"
    unfolding assign_sender_Inr(2)[OF assms] by (rule map_of_dict_set_keys[OF k])
  show "(map_of (receiver_loads st') h \<noteq> None) = (map_of (receiver_loads st) h \<noteq> None)"
    unfolding assign_sender_Inr(3)[OF assms]
    by (rule map_of_dict_set_keys[OF assign_sender_Inr(5)[OF assms]])
qed

lemma assign_sender_cover_preserved:
  assumes "assign_sender sz receiver s st = Inr (sender, st')"
  shows "counters_cover cs st' = counters_cover cs st"
  unfolding counters_cover_def
  by (simp only: assign_sender_keys[OF assms])

lemma run_assignments_cover_preserved:
  "run_assignments sz cs st = Inr (senders, st') \<Longrightarrow>
     counters_cover cs' st' = counters_cover cs' st"
proof (induction cs arbitrary: st senders)
  case Nil
  then show ?case
    by simp
next
  case (Cons c cs)
  obtain receiver s where c: "c = (receiver, s)"
    by (cases c)
  from Cons.prems c obtain sender st1 rest where
    a: "assign_sender sz receiver s st = Inr (sender, st1)"
    and r: "run_assignments sz cs st1 = Inr (rest, st')"
    by (auto split: sum.splits prod.splits)
  from Cons.IH[OF r] assign_sender_cover_preserved[OF a] show ?case
    by simp
qed

lemma run_assignments_greedy:
  "counters_cover cs st \<Longrightarrow>
     \<exists>senders st'. greedy_run sz cs st = Some (senders, st') \<and>
        run_assignments sz cs st = Inr (senders, st')"
proof (induction cs arbitrary: st)
  case Nil
  then show ?case
    by simp
next
  case (Cons c cs)
  obtain receiver s where c: "c = (receiver, s)"
    by (cases c)
  from Cons.prems c have h: "replica_device_strs s \<noteq> []"
    "\<forall>h\<in>set (replica_device_strs s). map_of (sender_loads st) h \<noteq> None"
    "map_of (receiver_loads st) receiver \<noteq> None" and cov: "counters_cover cs st"
    by (simp_all add: counters_cover_Cons)
  let ?st1 = "\<lambda>sender. \<lparr>sender_loads = add_load (sender_loads st) sender (sz s),
                     receiver_loads = add_load (receiver_loads st) receiver (sz s)\<rparr>"
  from assign_sender_greedy[OF h, of sz] obtain sender where
    f: "first_min_holder (sender_loads st) (replica_device_strs s) = Some sender"
    and a: "assign_sender sz receiver s st = Inr (sender, ?st1 sender)"
    by blast
  have g: "greedy_step sz receiver s st = Some (sender, ?st1 sender)"
    using f by (simp add: greedy_step_def)
  from cov assign_sender_cover_preserved[OF a] have "counters_cover cs (?st1 sender)"
    by simp
  from Cons.IH[OF this] obtain senders st' where
    "greedy_run sz cs (?st1 sender) = Some (senders, st')"
    "run_assignments sz cs (?st1 sender) = Inr (senders, st')"
    by blast
  then show ?case
    unfolding c using g a by simp
qed

lemma run_assignments_covered:
  "run_assignments sz cs st = Inr (senders, st') \<Longrightarrow> counters_cover cs st"
proof (induction cs arbitrary: st senders)
  case Nil
  then show ?case
    by (simp add: counters_cover_Nil)
next
  case (Cons c cs)
  obtain receiver s where c: "c = (receiver, s)"
    by (cases c)
  from Cons.prems c obtain sender st1 rest where
    a: "assign_sender sz receiver s st = Inr (sender, st1)"
    and r: "run_assignments sz cs st1 = Inr (rest, st')"
    by (auto split: sum.splits prod.splits)
  from Cons.IH[OF r] assign_sender_cover_preserved[OF a] have "counters_cover cs st"
    by simp
  with assign_sender_covered[OF a] show ?case
    unfolding c by (simp add: counters_cover_Cons)
qed

lemma plans_loop_plan_shape:
  "plans_loop sz m st = Inr (plans, st') \<Longrightarrow> plan_shape m plans"
proof (induction m arbitrary: st plans)
  case Nil
  then show ?case
    by (simp add: plan_shape_def)
next
  case (Cons x m)
  obtain dst_tile slices ixs where x: "x = (dst_tile, slices, ixs)"
    by (cases x)
  from Cons.prems x obtain plan st1 plans' where
    a: "receivers_loop sz (replica_device_strs dst_tile) slices st = Inr (plan, st1)"
    and b: "plans_loop sz m st1 = Inr (plans', st')" and c: "plans = plan # plans'"
    by (auto split: sum.splits prod.splits)
  from Cons.IH[OF b] receivers_loop_shape[OF a] c x show ?case
    by (simp add: plan_shape_def)
qed

lemma generate_strategy_greedy:
  assumes m: "dst_tile_to_src_tiles_map spec = Inr m"
    and cov: "counters_cover (choices_of m) st"
  shows "\<exists>plans st'.
     generate_send_recv_resharding_strategy_by_loads sz spec st =
       Inr (\<lparr>per_spec_plans = plans, is_local_allgather = (allgather_slice spec \<noteq> None)\<rparr>, st') \<and>
     greedy_run sz (choices_of m) st = Some (concat (concat plans), st') \<and>
     run_assignments sz (choices_of m) st = Inr (concat (concat plans), st') \<and>
     plan_shape m plans"
proof -
  from run_assignments_greedy[OF cov, of sz] obtain senders st' where
    g: "greedy_run sz (choices_of m) st = Some (senders, st')"
    and r: "run_assignments sz (choices_of m) st = Inr (senders, st')"
    by blast
  from generate_strategy_total[OF m r] obtain y where
    y: "generate_send_recv_resharding_strategy_by_loads sz spec st = Inr (y, st')"
    and c: "concat (concat (per_spec_plans y)) = senders"
    by blast
  from generate_strategy_run[OF y] m have
    p: "plans_loop sz m st = Inr (per_spec_plans y, st')"
    and l: "is_local_allgather y = (allgather_slice spec \<noteq> None)"
    by auto
  have "y = \<lparr>per_spec_plans = per_spec_plans y,
             is_local_allgather = (allgather_slice spec \<noteq> None)\<rparr>"
    using l by simp
  with y g r c plans_loop_plan_shape[OF p] show ?thesis
    by metis
qed

lemma generate_strategy_covered:
  assumes "generate_send_recv_resharding_strategy_by_loads sz spec st = Inr (y, st')"
  shows "\<exists>m. dst_tile_to_src_tiles_map spec = Inr m \<and> counters_cover (choices_of m) st"
  using generate_strategy_run[OF assms] run_assignments_covered by blast

lemma strategies_loop_greedy:
  "map dst_tile_to_src_tiles_map specs = map Inr ms \<Longrightarrow>
   counters_cover (concat (map choices_of ms)) st \<Longrightarrow>
   \<exists>ys st'.
     strategies_loop sz specs st = Inr (map2 set_resharding_strategy specs ys, st') \<and>
     length ys = length specs \<and>
     run_assignments sz (concat (map choices_of ms)) st = Inr (concat (map flat_plans ys), st') \<and>
     list_all2 (\<lambda>spec y. is_local_allgather y = (allgather_slice spec \<noteq> None)) specs ys \<and>
     list_all2 (\<lambda>m y. plan_shape m (per_spec_plans y)) ms ys"
proof (induction specs arbitrary: ms st)
  case Nil
  then show ?case
    by simp
next
  case (Cons spec specs)
  from Cons.prems(1) obtain m ms' where ms: "ms = m # ms'"
    and m: "dst_tile_to_src_tiles_map spec = Inr m"
    and rest: "map dst_tile_to_src_tiles_map specs = map Inr ms'"
    by (cases ms) auto
  from Cons.prems(2) ms have c1: "counters_cover (choices_of m) st"
    and c2: "counters_cover (concat (map choices_of ms')) st"
    by (simp_all add: counters_cover_append)
  from generate_strategy_greedy[OF m c1, of sz] obtain plans st1 where
    g: "generate_send_recv_resharding_strategy_by_loads sz spec st =
       Inr (\<lparr>per_spec_plans = plans, is_local_allgather = (allgather_slice spec \<noteq> None)\<rparr>, st1)"
    and r: "run_assignments sz (choices_of m) st = Inr (concat (concat plans), st1)"
    and s: "plan_shape m plans"
    by blast
  let ?y = "\<lparr>per_spec_plans = plans, is_local_allgather = (allgather_slice spec \<noteq> None)\<rparr>"
  from c2 run_assignments_cover_preserved[OF r]
  have "counters_cover (concat (map choices_of ms')) st1"
    by simp
  from Cons.IH[OF rest this] obtain ys st' where
    l: "strategies_loop sz specs st1 = Inr (map2 set_resharding_strategy specs ys, st')"
    and n: "length ys = length specs"
    and r': "run_assignments sz (concat (map choices_of ms')) st1 =
        Inr (concat (map flat_plans ys), st')"
    and a: "list_all2 (\<lambda>spec y. is_local_allgather y = (allgather_slice spec \<noteq> None)) specs ys"
    and p: "list_all2 (\<lambda>m y. plan_shape m (per_spec_plans y)) ms' ys"
    by blast
  show ?case
    using g l n r r' a p s ms
    by (intro exI[of _ "?y # ys"] exI[of _ st'])
      (simp add: run_assignments_append flat_plans_def[abs_def])
qed

lemma strategies_loop_covered:
  assumes "strategies_loop sz specs st = Inr (specs', st')"
  shows "\<exists>ms. map dst_tile_to_src_tiles_map specs = map Inr ms \<and>
     counters_cover (concat (map choices_of ms)) st"
  using strategies_loop_run[OF assms] run_assignments_covered by blast


lemma set_resharding_strategy_inject:
  "set_resharding_strategy spec y = set_resharding_strategy spec' y' \<Longrightarrow> y = y'"
  by (drule arg_cong[where f = strategy_field]) (simp add: set_resharding_strategy_def)

lemma load_of_add_load:
  "load_of (add_load d s v) s' = (if s' = s then load_of d s + v else load_of d s')"
  by (simp add: add_load_def load_of_dict_set)

text \<open>
  C3. Let every slice to be assigned have a replica holder, every replica holder a send
  counter and every receiver a receive counter (\<open>counters_cover\<close>). Then the body of the
  innermost loop (\<open>assign_sender\<close>) returns the first replica holder of the slice, in the
  order of \<open>replica_device_strs\<close>, whose send load is minimal among the replica holders of
  the slice, with the counters in which the size of the slice is added to the send load of
  that sender and to the receive load of the receiver. The function returns a strategy
  whose plans have one row per replica and one entry per slice and, read tile by tile,
  replica by replica and slice by slice, are the senders of the greedy run over the pairs
  of receiver and slice in this order, each choice made from the counters the one before
  it left; the counters it leaves are those of the run. The loop over several specs
  returns the specs with such strategies, and they are one greedy run over the pairs of
  all specs: the counters go on from spec to spec. Without such counters neither the
  function nor the loop returns.
\<close>

theorem strategy_by_loads_greedy:
  "(counters_cover [(receiver, src_tileslice)] self \<longrightarrow>
      (\<exists>sender.
         first_min_holder (sender_loads self) (replica_device_strs src_tileslice) = Some sender \<and>
         assign_sender slice_size receiver src_tileslice self =
           Inr (sender,
                \<lparr>sender_loads =
                   add_load (sender_loads self) sender (slice_size src_tileslice),
                 receiver_loads =
                   add_load (receiver_loads self) receiver (slice_size src_tileslice)\<rparr>))) \<and>
   load_of (add_load d s v) s' = (if s' = s then load_of d s + v else load_of d s') \<and>
   (dst_tile_to_src_tiles_map spec = Inr m \<and> counters_cover (choices_of m) st \<longrightarrow>
      (\<exists>plans st'.
         generate_send_recv_resharding_strategy_by_loads slice_size spec st =
           Inr (\<lparr>per_spec_plans = plans,
                  is_local_allgather = (allgather_slice spec \<noteq> None)\<rparr>, st') \<and>
         greedy_run slice_size (choices_of m) st = Some (concat (concat plans), st') \<and>
         plan_shape m plans)) \<and>
   (generate_send_recv_resharding_strategy_by_loads slice_size spec st = Inr (strategy', st'') \<longrightarrow>
      (\<exists>m. dst_tile_to_src_tiles_map spec = Inr m \<and> counters_cover (choices_of m) st)) \<and>
   (map dst_tile_to_src_tiles_map specs = map Inr ms \<and>
    counters_cover (concat (map choices_of ms)) st0 \<longrightarrow>
      (\<exists>ys st1.
         strategies_loop slice_size specs st0 =
           Inr (map2 set_resharding_strategy specs ys, st1) \<and>
         length ys = length specs \<and>
         greedy_run slice_size (concat (map choices_of ms)) st0 =
           Some (concat (map flat_plans ys), st1) \<and>
         list_all2 (\<lambda>spec y. is_local_allgather y = (allgather_slice spec \<noteq> None)) specs ys \<and>
         list_all2 (\<lambda>m y. plan_shape m (per_spec_plans y)) ms ys)) \<and>
   (strategies_loop slice_size specs st0 = Inr (specs', st1') \<longrightarrow>
      (\<exists>ms. map dst_tile_to_src_tiles_map specs = map Inr ms \<and>
         counters_cover (concat (map choices_of ms)) st0))"
proof (intro conjI impI)
  assume "counters_cover [(receiver, src_tileslice)] self"
  then have "replica_device_strs src_tileslice \<noteq> []"
    "\<forall>h\<in>set (replica_device_strs src_tileslice). map_of (sender_loads self) h \<noteq> None"
    "map_of (receiver_loads self) receiver \<noteq> None"
    by (simp_all add: counters_cover_Cons)
  then show "\<exists>sender.
         first_min_holder (sender_loads self) (replica_device_strs src_tileslice) = Some sender \<and>
         assign_sender slice_size receiver src_tileslice self =
           Inr (sender,
                \<lparr>sender_loads =
                   add_load (sender_loads self) sender (slice_size src_tileslice),
                 receiver_loads =
                   add_load (receiver_loads self) receiver (slice_size src_tileslice)\<rparr>)"
    by (rule assign_sender_greedy)
next
  show "load_of (add_load d s v) s' = (if s' = s then load_of d s + v else load_of d s')"
    by (rule load_of_add_load)
next
  assume a: "dst_tile_to_src_tiles_map spec = Inr m \<and> counters_cover (choices_of m) st"
  from generate_strategy_greedy[of spec m st slice_size] a
  show "\<exists>plans st'.
         generate_send_recv_resharding_strategy_by_loads slice_size spec st =
           Inr (\<lparr>per_spec_plans = plans,
                  is_local_allgather = (allgather_slice spec \<noteq> None)\<rparr>, st') \<and>
         greedy_run slice_size (choices_of m) st = Some (concat (concat plans), st') \<and>
         plan_shape m plans"
    by blast
next
  assume "generate_send_recv_resharding_strategy_by_loads slice_size spec st =
      Inr (strategy', st'')"
  then show "\<exists>m. dst_tile_to_src_tiles_map spec = Inr m \<and> counters_cover (choices_of m) st"
    by (rule generate_strategy_covered)
next
  assume a: "map dst_tile_to_src_tiles_map specs = map Inr ms \<and>
    counters_cover (concat (map choices_of ms)) st0"
  from strategies_loop_greedy[of specs ms st0 slice_size] a obtain ys st1 where
    l: "strategies_loop slice_size specs st0 =
           Inr (map2 set_resharding_strategy specs ys, st1)"
    and n: "length ys = length specs"
    and r: "run_assignments slice_size (concat (map choices_of ms)) st0 =
        Inr (concat (map flat_plans ys), st1)"
    and p: "list_all2 (\<lambda>spec y. is_local_allgather y = (allgather_slice spec \<noteq> None)) specs ys"
      "list_all2 (\<lambda>m y. plan_shape m (per_spec_plans y)) ms ys"
    by blast
  from run_assignments_greedy[of "concat (map choices_of ms)" st0 slice_size] a r
  have "greedy_run slice_size (concat (map choices_of ms)) st0 =
           Some (concat (map flat_plans ys), st1)"
    by auto
  with l n p show "\<exists>ys st1.
         strategies_loop slice_size specs st0 =
           Inr (map2 set_resharding_strategy specs ys, st1) \<and>
         length ys = length specs \<and>
         greedy_run slice_size (concat (map choices_of ms)) st0 =
           Some (concat (map flat_plans ys), st1) \<and>
         list_all2 (\<lambda>spec y. is_local_allgather y = (allgather_slice spec \<noteq> None)) specs ys \<and>
         list_all2 (\<lambda>m y. plan_shape m (per_spec_plans y)) ms ys"
    by blast
next
  assume "strategies_loop slice_size specs st0 = Inr (specs', st1')"
  then show "\<exists>ms. map dst_tile_to_src_tiles_map specs = map Inr ms \<and>
         counters_cover (concat (map choices_of ms)) st0"
    by (rule strategies_loop_covered)
qed

theorem strategy_by_loads_greedy_witness:
  "dst_tile_to_src_tiles_map spec_4x4 = Inr map_4x4 \<and>
   counters_cover (concat (map choices_of [map_4x4, map_4x4])) loads_zero \<and>
   assign_sender offset_volume ''a:0'' slice_upper loads_zero =
     Inr (''c:0'',
          \<lparr>sender_loads = [(''c:0'', 8), (''c:1'', 0), (''d:0'', 0), (''d:1'', 0), (''a:0'', 0)],
           receiver_loads = [(''c:0'', 0), (''c:1'', 0), (''d:0'', 0), (''d:1'', 0), (''a:0'', 8)]\<rparr>) \<and>
   generate_send_recv_resharding_strategy_by_loads offset_volume spec_4x4 loads_zero =
     Inr (\<lparr>per_spec_plans = [[[''c:0'', ''d:0'']]], is_local_allgather = False\<rparr>,
          loads_after_one) \<and>
   greedy_run offset_volume (choices_of map_4x4) loads_zero =
     Some ([''c:0'', ''d:0''], loads_after_one) \<and>
   strategies_loop offset_volume [spec_4x4, spec_4x4] loads_zero =
     Inr ([set_resharding_strategy spec_4x4
             \<lparr>per_spec_plans = [[[''c:0'', ''d:0'']]], is_local_allgather = False\<rparr>,
           set_resharding_strategy spec_4x4
             \<lparr>per_spec_plans = [[[''c:1'', ''d:1'']]], is_local_allgather = False\<rparr>],
          loads_after_two) \<and>
   greedy_run offset_volume (concat (map choices_of [map_4x4, map_4x4])) loads_zero =
     Some ([''c:0'', ''d:0'', ''c:1'', ''d:1''], loads_after_two)"
proof -
  let ?y1 = "\<lparr>per_spec_plans = [[[''c:0'', ''d:0'']]], is_local_allgather = False\<rparr>"
  let ?y2 = "\<lparr>per_spec_plans = [[[''c:1'', ''d:1'']]], is_local_allgather = False\<rparr>"
  let ?l1 = "\<lparr>sender_loads = [(''c:0'', 8), (''c:1'', 0), (''d:0'', 0), (''d:1'', 0), (''a:0'', 0)],
      receiver_loads = [(''c:0'', 0), (''c:1'', 0), (''d:0'', 0), (''d:1'', 0), (''a:0'', 8)]\<rparr>"
  have m: "dst_tile_to_src_tiles_map spec_4x4 = Inr map_4x4"
    by code_simp
  have c0: "counters_cover [(''a:0'', slice_upper)] loads_zero"
    by code_simp
  have c1: "counters_cover (choices_of map_4x4) loads_zero"
    by code_simp
  have c2: "counters_cover (concat (map choices_of [map_4x4, map_4x4])) loads_zero"
    by code_simp
  have f: "first_min_holder (sender_loads loads_zero) (replica_device_strs slice_upper) =
      Some ''c:0''"
    by code_simp
  have l1: "\<lparr>sender_loads = add_load (sender_loads loads_zero) ''c:0'' (offset_volume slice_upper),
      receiver_loads = add_load (receiver_loads loads_zero) ''a:0'' (offset_volume slice_upper)\<rparr> =
      ?l1"
    by code_simp
  have g: "generate_send_recv_resharding_strategy_by_loads offset_volume spec_4x4 loads_zero =
      Inr (?y1, loads_after_one)"
    by code_simp
  have s: "strategies_loop offset_volume [spec_4x4, spec_4x4] loads_zero =
      Inr ([set_resharding_strategy spec_4x4 ?y1, set_resharding_strategy spec_4x4 ?y2],
           loads_after_two)"
    by code_simp
  note inst = strategy_by_loads_greedy[where slice_size = offset_volume and receiver = "''a:0''"
      and src_tileslice = slice_upper and self = loads_zero
      and spec = spec_4x4 and m = map_4x4 and st = loads_zero
      and specs = "[spec_4x4, spec_4x4]" and ms = "[map_4x4, map_4x4]" and ?st0.0 = loads_zero]
  from inst c0 f l1 have 1: "assign_sender offset_volume ''a:0'' slice_upper loads_zero =
      Inr (''c:0'', ?l1)"
    by auto
  from inst m c1 g have 2: "greedy_run offset_volume (choices_of map_4x4) loads_zero =
      Some ([''c:0'', ''d:0''], loads_after_one)"
    by auto
  have h: "map dst_tile_to_src_tiles_map [spec_4x4, spec_4x4] = map Inr [map_4x4, map_4x4] \<and>
      counters_cover (concat (map choices_of [map_4x4, map_4x4])) loads_zero"
    using m c2 by simp
  from inst[THEN conjunct2, THEN conjunct2, THEN conjunct2, THEN conjunct2, THEN conjunct1,
      THEN mp, OF h]
  obtain ys st1 where
    a: "strategies_loop offset_volume [spec_4x4, spec_4x4] loads_zero =
           Inr (map2 set_resharding_strategy [spec_4x4, spec_4x4] ys, st1)"
    and b: "length ys = length [spec_4x4, spec_4x4]"
    and c: "greedy_run offset_volume (concat (map choices_of [map_4x4, map_4x4])) loads_zero =
           Some (concat (map flat_plans ys), st1)"
    by blast
  from b obtain ya yb where ys: "ys = [ya, yb]"
    by (auto simp: length_Suc_conv)
  from a[unfolded s] ys have "set_resharding_strategy spec_4x4 ?y1 =
      set_resharding_strategy spec_4x4 ya"
    "set_resharding_strategy spec_4x4 ?y2 = set_resharding_strategy spec_4x4 yb"
    "st1 = loads_after_two"
    by simp_all
  then have "ya = ?y1" "yb = ?y2" "st1 = loads_after_two"
    by (simp_all add: set_resharding_strategy_inject[symmetric])
  with c ys have 3:
    "greedy_run offset_volume (concat (map choices_of [map_4x4, map_4x4])) loads_zero =
     Some ([''c:0'', ''d:0'', ''c:1'', ''d:1''], loads_after_two)"
    by (simp add: flat_plans_def)
  from m c2 1 g 2 s 3 show ?thesis
    by blast
qed

subsection \<open>Balance of the send loads\<close>

lemma balanced_step:
  assumes b: "balanced V S (sender_loads st)"
    and S: "set (replica_device_strs s) = S" and V: "slice_size s = V"
    and a: "assign_sender slice_size receiver s st = Inr (sender, st')"
  shows "balanced V S (sender_loads st')"
proof -
  note r = assign_sender_Inr[OF a]
  from first_min_holder_Some[OF r(1)] S have
    mem: "sender \<in> S" and mn: "\<forall>y\<in>S. load_of (sender_loads st) sender \<le> load_of (sender_loads st) y"
    by auto
  have l: "load_of (sender_loads st') x =
      (if x = sender then load_of (sender_loads st) sender + V else load_of (sender_loads st) x)"
    for x
    unfolding r(2) V by (simp add: load_of_dict_set)
  show ?thesis
    unfolding balanced_def
  proof (intro ballI)
    fix x y
    assume x: "x \<in> S" and y: "y \<in> S"
    from b x y mem have
      1: "load_of (sender_loads st) x \<le> load_of (sender_loads st) y + V"
      and 2: "load_of (sender_loads st) x \<le> load_of (sender_loads st) sender + V"
      by (simp_all add: balanced_def)
    from mn y have 3: "load_of (sender_loads st) sender \<le> load_of (sender_loads st) y"
      by simp
    show "load_of (sender_loads st') x \<le> load_of (sender_loads st') y + V"
      using 1 2 3 by (simp add: l)
  qed
qed

lemma run_assignments_balanced:
  assumes "\<forall>(receiver, s)\<in>set choices. slice_size s = V \<and> set (replica_device_strs s) = S"
  shows "balanced V S (sender_loads st) \<Longrightarrow>
     run_assignments slice_size choices st = Inr (senders, st') \<Longrightarrow>
     balanced V S (sender_loads st')"
  using assms
proof (induction choices arbitrary: st senders)
  case Nil
  then show ?case
    by simp
next
  case (Cons c choices)
  obtain receiver s where c: "c = (receiver, s)"
    by (cases c)
  from Cons.prems(2) c obtain sender st1 rest where
    a: "assign_sender slice_size receiver s st = Inr (sender, st1)"
    and r: "run_assignments slice_size choices st1 = Inr (rest, st')"
    by (auto split: sum.splits prod.splits)
  have "balanced V S (sender_loads st1)"
    using balanced_step[OF Cons.prems(1) _ _ a] Cons.prems(3) c by simp
  from Cons.IH[OF this r] Cons.prems(3) show ?case
    by simp
qed

lemma balanced_zero: "\<forall>x\<in>S. load_of d x = 0 \<Longrightarrow> balanced V S d"
  by (simp add: balanced_def)

lemma finite_load_image: "finite (load_of d ` S)"
proof -
  have "load_of d x \<in> insert 0 (snd ` set d)" for x
  proof (cases "map_of d x")
    case None
    then show ?thesis
      by (simp add: load_of_def)
  next
    case (Some v)
    then have "(x, v) \<in> set d"
      by (rule map_of_SomeD)
    then have "v \<in> snd ` set d"
      by force
    with Some show ?thesis
      by (simp add: load_of_def)
  qed
  then have "load_of d ` S \<subseteq> insert 0 (snd ` set d)"
    by (intro image_subsetI)
  then show ?thesis
    by (rule finite_subset) simp
qed

lemma balanced_Max_Min:
  assumes "balanced V S d" "S \<noteq> {}"
  shows "Max (load_of d ` S) - Min (load_of d ` S) \<le> V"
proof -
  have "Max (load_of d ` S) \<in> load_of d ` S" "Min (load_of d ` S) \<in> load_of d ` S"
    using assms(2) finite_load_image by (simp_all add: Max_in Min_in)
  then obtain x y where "x \<in> S" "y \<in> S" "Max (load_of d ` S) = load_of d x"
    "Min (load_of d ` S) = load_of d y"
    by auto
  moreover from this assms(1) have "load_of d x \<le> load_of d y + V"
    by (simp add: balanced_def)
  ultimately show ?thesis
    by simp
qed

lemma map_of_zero_loads_aux:
  "(\<forall>k v. map_of d k = Some v \<longrightarrow> v = 0) \<Longrightarrow>
   map_of (foldl (\<lambda>d device_str. dict_set d device_str 0) d ks) k = Some v \<Longrightarrow> v = (0::nat)"
proof (induction ks arbitrary: d)
  case Nil
  then show ?case
    by simp
next
  case (Cons x ks)
  have "\<forall>k v. map_of (dict_set d x 0) k = Some v \<longrightarrow> v = 0"
    using Cons.prems(1) by (simp add: map_of_dict_set)
  from Cons.IH[OF this] Cons.prems(2) show ?case
    by simp
qed

lemma load_of_zero_loads: "load_of (zero_loads ms) x = 0"
proof (cases "map_of (zero_loads ms) x")
  case None
  then show ?thesis
    by (simp add: load_of_def)
next
  case (Some v)
  then have "v = 0"
    unfolding zero_loads_def using map_of_zero_loads_aux[of "[]"] by simp
  with Some show ?thesis
    by (simp add: load_of_def)
qed

lemma run_assignments_total:
  "\<forall>(receiver, s)\<in>set choices.
      replica_device_strs s \<noteq> [] \<and>
      (\<forall>x\<in>set (replica_device_strs s). map_of (sender_loads st) x \<noteq> None) \<and>
      map_of (receiver_loads st) receiver \<noteq> None \<Longrightarrow>
   \<exists>senders st'. run_assignments slice_size choices st = Inr (senders, st')"
proof (induction choices arbitrary: st)
  case Nil
  show ?case
    by simp
next
  case (Cons c choices)
  obtain receiver s where c: "c = (receiver, s)"
    by (cases c)
  from assign_sender_total[of s st receiver slice_size] Cons.prems c obtain sender st1 where
    a: "assign_sender slice_size receiver s st = Inr (sender, st1)"
    by auto
  have "\<forall>(receiver, s)\<in>set choices.
      replica_device_strs s \<noteq> [] \<and>
      (\<forall>x\<in>set (replica_device_strs s). map_of (sender_loads st1) x \<noteq> None) \<and>
      map_of (receiver_loads st1) receiver \<noteq> None"
    using Cons.prems assign_sender_keys[OF a] by auto
  from Cons.IH[OF this] obtain senders st' where
    "run_assignments slice_size choices st1 = Inr (senders, st')"
    by blast
  with a c show ?case
    by simp
qed

text \<open>
  C4. Let every assigned slice have the volume \<open>V\<close> and the set \<open>S\<close> of replica holders,
  and let the send loads of \<open>S\<close> be zero at the start (as they are in the counters that the
  constructor of the communicator builds). Then after the first \<open>n\<close> assignments of the
  sequence, for every \<open>n\<close>, any two send loads of \<open>S\<close> differ by at most \<open>V\<close>: the maximum
  minus the minimum is at most \<open>V\<close>. The assignments do not fail when \<open>S\<close> is not empty, its
  devices have a send counter and the receivers have a receive counter.
\<close>

theorem equal_slices_keep_send_loads_balanced:
  assumes "\<forall>x\<in>S. load_of (sender_loads st0) x = 0"
    and "\<forall>(receiver, s)\<in>set choices. slice_size s = V \<and> set (replica_device_strs s) = S"
  shows "(run_assignments slice_size (take n choices) st0 = Inr (senders, st) \<longrightarrow>
      (\<forall>x\<in>S. \<forall>y\<in>S. load_of (sender_loads st) x \<le> load_of (sender_loads st) y + V) \<and>
      (S \<noteq> {} \<longrightarrow>
         Max (load_of (sender_loads st) ` S) - Min (load_of (sender_loads st) ` S) \<le> V)) \<and>
    (S \<noteq> {} \<and> (\<forall>x\<in>S. map_of (sender_loads st0) x \<noteq> None) \<and>
     (\<forall>(receiver, s)\<in>set choices. map_of (receiver_loads st0) receiver \<noteq> None) \<longrightarrow>
       (\<exists>senders' st'. run_assignments slice_size (take n choices) st0 = Inr (senders', st'))) \<and>
    (\<forall>x. load_of (sender_loads (Loads_init schedule)) x = 0)"
proof (intro conjI impI allI)
  have uni: "\<forall>(receiver, s)\<in>set (take n choices).
      slice_size s = V \<and> set (replica_device_strs s) = S"
    using assms(2) by (auto dest: in_set_takeD)
  have b0: "balanced V S (sender_loads st0)"
    using assms(1) by (rule balanced_zero)
  {
    assume run: "run_assignments slice_size (take n choices) st0 = Inr (senders, st)"
    have b: "balanced V S (sender_loads st)"
      by (rule run_assignments_balanced[OF uni b0 run])
    then show "\<forall>x\<in>S. \<forall>y\<in>S. load_of (sender_loads st) x \<le> load_of (sender_loads st) y + V"
      by (simp add: balanced_def)
    assume ne: "S \<noteq> {}"
    show "Max (load_of (sender_loads st) ` S) - Min (load_of (sender_loads st) ` S) \<le> V"
      by (rule balanced_Max_Min[OF b ne])
  }
  {
    assume h: "S \<noteq> {} \<and> (\<forall>x\<in>S. map_of (sender_loads st0) x \<noteq> None) \<and>
      (\<forall>(receiver, s)\<in>set choices. map_of (receiver_loads st0) receiver \<noteq> None)"
    have "\<forall>(receiver, s)\<in>set (take n choices).
      replica_device_strs s \<noteq> [] \<and>
      (\<forall>x\<in>set (replica_device_strs s). map_of (sender_loads st0) x \<noteq> None) \<and>
      map_of (receiver_loads st0) receiver \<noteq> None"
      using h assms(2) by (auto dest!: in_set_takeD)
    from run_assignments_total[OF this]
    show "\<exists>senders' st'. run_assignments slice_size (take n choices) st0 = Inr (senders', st')"
      by blast
  }
  show "load_of (sender_loads (Loads_init schedule)) x = 0" for x
    by (simp add: Loads_init_def load_of_zero_loads)
qed


theorem equal_slices_keep_send_loads_balanced_witness:
  "run_assignments offset_volume (take 3 choices_upper) loads_zero =
     Inr ([''c:0'', ''c:1'', ''c:0''], loads_after_three) \<and>
   load_of (sender_loads loads_after_three) ''c:0'' \<le>
     load_of (sender_loads loads_after_three) ''c:1'' + 8 \<and>
   Max (load_of (sender_loads loads_after_three) ` {''c:0'', ''c:1''}) -
     Min (load_of (sender_loads loads_after_three) ` {''c:0'', ''c:1''}) \<le> 8 \<and>
   load_of (sender_loads loads_after_three) ''c:0'' = 16 \<and>
   load_of (sender_loads loads_after_three) ''c:1'' = 8"
proof -
  let ?S = "{''c:0'', ''c:1''}"
  have zero: "\<forall>x\<in>?S. load_of (sender_loads loads_zero) x = 0"
    by (simp add: loads_zero_def load_of_zero_loads)
  have uni: "\<forall>(receiver, s)\<in>set choices_upper.
      offset_volume s = 8 \<and> set (replica_device_strs s) = ?S"
    by (simp add: choices_upper_def slice_upper_def TileSlice_init_def new_tile_def
        offset_volume_def)
  have run: "run_assignments offset_volume (take 3 choices_upper) loads_zero =
     Inr ([''c:0'', ''c:1'', ''c:0''], loads_after_three)"
    by code_simp
  have vals: "load_of (sender_loads loads_after_three) ''c:0'' = 16"
    "load_of (sender_loads loads_after_three) ''c:1'' = 8"
    by (simp_all add: loads_after_three_def load_of_def)
  from equal_slices_keep_send_loads_balanced[OF zero uni, where n = 3
      and senders = "[''c:0'', ''c:1'', ''c:0'']" and st = loads_after_three] run
  have "(\<forall>x\<in>?S. \<forall>y\<in>?S. load_of (sender_loads loads_after_three) x \<le>
            load_of (sender_loads loads_after_three) y + 8)"
    and "Max (load_of (sender_loads loads_after_three) ` ?S) -
         Min (load_of (sender_loads loads_after_three) ` ?S) \<le> 8"
    by blast+
  then show ?thesis
    using run vals by simp
qed

subsection \<open>Send and receive entries are paired\<close>

lemma sent_by_append: "sent_by g w (ts @ ts') = sent_by g w ts @ sent_by g w ts'"
  by (simp add: sent_by_def)

lemma received_by_append:
  "received_by g w (ts @ ts') = received_by g w ts @ received_by g w ts'"
  by (simp add: received_by_def)

lemma indices_in_dst_post_allgather_cong:
  assumes "task_spec a = task_spec b" "collective_group a = collective_group b"
    "dst_mesh a = dst_mesh b"
  shows "indices_in_dst_post_allgather a ix receiver =
     indices_in_dst_post_allgather b ix receiver"
  unfolding indices_in_dst_post_allgather_def allgather_receiver_step_and_offset_def assms
  by (rule refl)

lemma sent_by_Cons:
  "sent_by g w (t # ts) =
     (if map_of (device_str_to_mesh_worker_map g) (fst t) = Some w then [send_entry_of t] else [])
     @ sent_by g w ts"
  by (cases t) (simp add: sent_by_def send_entry_of_def)

lemma sent_by_Nil: "sent_by g w [] = []"
  by (simp add: sent_by_def)

lemma received_by_Nil: "received_by g w [] = []"
  by (simp add: received_by_def)

lemma tasks_received_by_append:
  "tasks_received_by g w (xs @ ys) = tasks_received_by g w xs @ tasks_received_by g w ys"
  by (simp add: tasks_received_by_def)

lemma received_by_same_receiver:
  assumes "\<forall>t\<in>set ts. fst (snd t) = receiver"
  shows "received_by g w ts =
     (if map_of (device_str_to_mesh_worker_map g) receiver = Some w
      then map recv_entry_of ts else [])"
  using assms by (induction ts) (auto simp: received_by_def recv_entry_of_def)

lemma senders_loop_transfers:
  assumes "senders_loop receiver rr rg src_tiles ixs k senders (self, acc) = Inr (self', acc')"
    and "task_spec self = task_spec self0" "collective_group self = collective_group self0"
      "dst_mesh self = dst_mesh self0"
    and "map_of (device_str_to_rank_map (collective_group self0)) receiver = Some (rr, rg)"
    and "map_of (device_str_to_mesh_worker_map (collective_group self0)) receiver \<noteq> None"
  shows "task_spec self' = task_spec self0 \<and> collective_group self' = collective_group self0 \<and>
     dst_mesh self' = dst_mesh self0 \<and>
     receiver_tasks self' = receiver_tasks self \<and>
     receiver_uuid_plan self' = receiver_uuid_plan self \<and>
     sender_uuid_plan self' = sender_uuid_plan self @ senders \<and>
     (\<forall>t\<in>set (map (transfer_of self0 src_tiles ixs receiver) (enumerate k senders)).
        transfer_paired (collective_group self0) t) \<and>
     (\<forall>w. send_entries self' w =
        send_entries self w @
        sent_by (collective_group self0) w
          (map (transfer_of self0 src_tiles ixs receiver) (enumerate k senders))) \<and>
     acc' = acc @ map recv_entry_of
              (map (transfer_of self0 src_tiles ixs receiver) (enumerate k senders))"
  using assms
proof (induction senders arbitrary: k self acc)
  case Nil
  then show ?case
    by (simp add: sent_by_Nil)
next
  case (Cons sender senders)
  let ?g = "collective_group self0"
  from Cons.prems(1) Cons.prems(3) obtain sw entries src_tile sr sg ix where
    sw: "dict_get (device_str_to_mesh_worker_map ?g) sender = Inr sw"
    and en: "dict_get (sender_tasks self) sw = Inr entries"
    and st: "list_get src_tiles k = Inr src_tile"
    and rk: "dict_get (device_str_to_rank_map ?g) sender = Inr (sr, sg)"
    and ixk: "ebind (list_get ixs k) (\<lambda>ix. indices_in_dst_post_allgather self ix receiver) = Inr ix"
    and rest: "senders_loop receiver rr rg src_tiles ixs (Suc k) senders
        (self\<lparr>sender_tasks :=
                 dict_set (sender_tasks self) sw
                   (entries @ [\<lparr>spec_offset = offset src_tile, rank = rr, gpu_idx = rg\<rparr>]),
               sender_uuid_plan := sender_uuid_plan self @ [sender]\<rparr>,
         acc @ [\<lparr>spec_offset = ix, rank = sr, gpu_idx = sg\<rparr>]) = Inr (self', acc')"
    by (auto split: sum.splits prod.splits)
  let ?se = "\<lparr>spec_offset = offset src_tile, rank = rr, gpu_idx = rg\<rparr>"
  let ?re = "\<lparr>spec_offset = ix, rank = sr, gpu_idx = sg\<rparr>"
  let ?self1 = "self\<lparr>sender_tasks := dict_set (sender_tasks self) sw (entries @ [?se]),
               sender_uuid_plan := sender_uuid_plan self @ [sender]\<rparr>"
  let ?tr = "transfer_of self0 src_tiles ixs receiver"
  have g1: "task_spec ?self1 = task_spec self0" "collective_group ?self1 = collective_group self0"
    "dst_mesh ?self1 = dst_mesh self0"
    using Cons.prems(2,3,4) by simp_all
  note ih = Cons.IH[OF rest g1 Cons.prems(5,6)]
  have "src_tile = src_tiles ! k"
    using st by (simp add: list_get_def split: if_splits)
  moreover have "indices_in_dst_post_allgather self0 (ixs ! k) receiver = Inr ix"
    using ixk indices_in_dst_post_allgather_cong[OF Cons.prems(2,3,4)]
    by (auto simp: ebind_def list_get_def split: sum.splits if_splits)
  then have "post_allgather_indices self0 (ixs ! k) receiver = ix"
    by (simp add: post_allgather_indices_def)
  moreover have "rank_of ?g receiver = (rr, rg)" "rank_of ?g sender = (sr, sg)"
    using Cons.prems(5) rk by (simp_all add: rank_of_def dict_get_Inr)
  ultimately have t: "?tr (k, sender) = (sender, receiver, ?se, ?re)"
    by (simp add: transfer_of_def)
  have pt: "transfer_paired ?g (?tr (k, sender))"
    unfolding t using sw rk Cons.prems(5,6) by (simp add: transfer_paired_def dict_get_Inr)
  have e1: "send_entries ?self1 w = send_entries self w @ sent_by ?g w [?tr (k, sender)]" for w
  proof -
    have "send_entries ?self1 w = (if w = sw then entries @ [?se] else send_entries self w)"
      by (simp add: send_entries_def map_of_dict_set)
    moreover have "send_entries self sw = entries"
      using en by (simp add: send_entries_def dict_get_Inr)
    moreover have "map_of (device_str_to_mesh_worker_map ?g) sender = Some sw"
      using sw by (simp add: dict_get_Inr)
    ultimately show ?thesis
      unfolding t by (auto simp: sent_by_def)
  qed
  have en: "enumerate k (sender # senders) = (k, sender) # enumerate (Suc k) senders"
    by simp
  have "\<forall>w. send_entries self' w =
        send_entries self w @ sent_by ?g w (map ?tr (enumerate k (sender # senders)))"
    using ih e1 sent_by_append[of ?g _ "[?tr (k, sender)]" "map ?tr (enumerate (Suc k) senders)"]
    unfolding en by simp
  moreover have "\<forall>t\<in>set (map ?tr (enumerate k (sender # senders))). transfer_paired ?g t"
    using ih pt unfolding en by simp
  moreover have "acc' = acc @ map recv_entry_of (map ?tr (enumerate k (sender # senders)))"
    using ih unfolding en by (simp add: t recv_entry_of_def)
  moreover have "sender_uuid_plan self' = sender_uuid_plan self @ sender # senders"
    using ih by simp
  moreover have "receiver_tasks self' = receiver_tasks self"
    "receiver_uuid_plan self' = receiver_uuid_plan self"
    using ih by simp_all
  ultimately show ?case
    using ih by blast
qed


lemma plan_senders_Inr:
  "plan_senders plan j ks = Inr senders \<Longrightarrow>
     senders = map (\<lambda>k. plan ! j ! k) ks \<and> (\<forall>k\<in>set ks. j < length plan \<and> k < length (plan ! j))"
proof (induction ks arbitrary: senders)
  case Nil
  then show ?case
    by simp
next
  case (Cons k ks)
  from Cons.prems obtain sender rest where
    a: "ebind (list_get plan j) (\<lambda>row. list_get row k) = Inr sender"
    and b: "plan_senders plan j ks = Inr rest" and c: "senders = sender # rest"
    by (auto split: sum.splits)
  from a have "j < length plan \<and> k < length (plan ! j) \<and> sender = plan ! j ! k"
    by (auto simp: ebind_def list_get_def split: sum.splits if_splits)
  with Cons.IH[OF b] c show ?case
    by simp
qed

lemma map_nth_upt_take: "n \<le> length xs \<Longrightarrow> map (\<lambda>k. xs ! k) [0..<n] = take n xs"
  by (simp add: list_eq_iff_nth_eq)

lemma plan_senders_take:
  assumes "plan_senders plan j [0..<n] = Inr senders"
  shows "senders = take n (plan ! j)"
proof (cases n)
  case 0
  with assms show ?thesis
    by simp
next
  case (Suc n')
  from plan_senders_Inr[OF assms] have s: "senders = map (\<lambda>k. plan ! j ! k) [0..<n]"
    and "\<forall>k<n. k < length (plan ! j)"
    by auto
  with Suc have "n \<le> length (plan ! j)"
    by (metis Suc_leI lessI)
  then show ?thesis
    unfolding s by (rule map_nth_upt_take)
qed

lemma transfer_of_receiver:
  "\<forall>t\<in>set (map (transfer_of self0 src_tiles ixs receiver) xs). fst (snd t) = receiver"
  by (auto simp: transfer_of_def)

lemma transfer_of_sender:
  "map fst (map (transfer_of self0 src_tiles ixs receiver) (enumerate k senders)) = senders"
  by (induction senders arbitrary: k) (simp_all add: transfer_of_def)

lemma replicas_loop_transfers:
  assumes "replicas_loop dst_tile src_tiles ixs plan j receivers self = Inr self'"
    and "task_spec self = task_spec self0" "collective_group self = collective_group self0"
      "dst_mesh self = dst_mesh self0"
  shows "task_spec self' = task_spec self0 \<and> collective_group self' = collective_group self0 \<and>
     dst_mesh self' = dst_mesh self0 \<and>
     (\<forall>t\<in>set (concat (map (\<lambda>(j, receiver).
                   transfers_of_receiver self0 src_tiles ixs (plan ! j) receiver)
                 (enumerate j receivers))).
        transfer_paired (collective_group self0) t) \<and>
     (\<forall>w. send_entries self' w =
        send_entries self w @
        sent_by (collective_group self0) w
          (concat (map (\<lambda>(j, receiver).
                     transfers_of_receiver self0 src_tiles ixs (plan ! j) receiver)
                   (enumerate j receivers)))) \<and>
     (\<forall>w. recv_entries self' w =
        recv_entries self w @
        received_by (collective_group self0) w
          (concat (map (\<lambda>(j, receiver).
                     transfers_of_receiver self0 src_tiles ixs (plan ! j) receiver)
                   (enumerate j receivers)))) \<and>
     (\<forall>w. recv_tasks self' w =
        recv_tasks self w @
        tasks_received_by (collective_group self0) w
          (map (\<lambda>(j, receiver).
                  (receiver, recv_task_of self0 dst_tile src_tiles ixs (plan ! j) receiver))
             (enumerate j receivers))) \<and>
     sender_uuid_plan self' =
       sender_uuid_plan self @
       map fst (concat (map (\<lambda>(j, receiver).
                          transfers_of_receiver self0 src_tiles ixs (plan ! j) receiver)
                        (enumerate j receivers))) \<and>
     receiver_uuid_plan self' = receiver_uuid_plan self @ receivers"
  using assms
proof (induction receivers arbitrary: j self)
  case Nil
  then show ?case
    by (simp add: sent_by_Nil received_by_Nil tasks_received_by_def)
next
  case (Cons receiver receivers)
  let ?g = "collective_group self0"
  let ?self0 = "self\<lparr>receiver_uuid_plan := receiver_uuid_plan self @ [receiver]\<rparr>"
  let ?T = "\<lambda>(j, receiver). transfers_of_receiver self0 src_tiles ixs (plan ! j) receiver"
  let ?R = "\<lambda>(j, receiver).
      (receiver, recv_task_of self0 dst_tile src_tiles ixs (plan ! j) receiver)"
  from Cons.prems(1) Cons.prems(3) obtain did rw senders rr rg self1 rts tasks where
    di: "dict_get (device_str_to_device_id_map ?g) receiver = Inr did"
    and rw: "dict_get (device_str_to_mesh_worker_map ?g) receiver = Inr rw"
    and ps: "plan_senders plan j [0..<length src_tiles] = Inr senders"
    and rk: "dict_get (device_str_to_rank_map ?g) receiver = Inr (rr, rg)"
    and sl: "senders_loop receiver rr rg src_tiles ixs 0 senders (?self0, []) = Inr (self1, rts)"
    and tk: "dict_get (receiver_tasks self1) rw = Inr tasks"
    and rest: "replicas_loop dst_tile src_tiles ixs plan (Suc j) receivers
        (self1\<lparr>receiver_tasks :=
                  dict_set (receiver_tasks self1) rw
                    (tasks @ [\<lparr>device_id = did, recv_shape = tile_shape dst_tile,
                                recv_dtype = dtype (aval (src (task_spec self1))),
                                tile_specs = rts\<rparr>])\<rparr>) = Inr self'"
    by (auto split: sum.splits prod.splits)
  let ?task = "\<lparr>device_id = did, recv_shape = tile_shape dst_tile,
                 recv_dtype = dtype (aval (src (task_spec self1))), tile_specs = rts\<rparr>"
  let ?self2 = "self1\<lparr>receiver_tasks := dict_set (receiver_tasks self1) rw (tasks @ [?task])\<rparr>"
  let ?ts1 = "transfers_of_receiver self0 src_tiles ixs (plan ! j) receiver"
  have s0: "task_spec ?self0 = task_spec self0" "collective_group ?self0 = collective_group self0"
    "dst_mesh ?self0 = dst_mesh self0"
    using Cons.prems(2,3,4) by simp_all
  have rk': "map_of (device_str_to_rank_map ?g) receiver = Some (rr, rg)"
    and rw': "map_of (device_str_to_mesh_worker_map ?g) receiver \<noteq> None"
    and rw'': "map_of (device_str_to_mesh_worker_map ?g) receiver = Some rw"
    using rk rw by (simp_all add: dict_get_Inr)
  have ts1: "map (transfer_of self0 src_tiles ixs receiver) (enumerate 0 senders) = ?ts1"
    unfolding plan_senders_take[OF ps] by (simp add: transfers_of_receiver_def)
  note sl' = senders_loop_transfers[OF sl s0 rk' rw', unfolded ts1]
  from sl' have f1: "task_spec self1 = task_spec self0"
    "collective_group self1 = collective_group self0" "dst_mesh self1 = dst_mesh self0"
    "receiver_tasks self1 = receiver_tasks self"
    "receiver_uuid_plan self1 = receiver_uuid_plan self @ [receiver]"
    and u1: "sender_uuid_plan self1 = sender_uuid_plan self @ senders"
    and p1: "\<forall>t\<in>set ?ts1. transfer_paired ?g t"
    and s1: "\<forall>w. send_entries self1 w = send_entries self w @ sent_by ?g w ?ts1"
    and a1: "rts = map recv_entry_of ?ts1"
    by (simp_all add: send_entries_def)
  have sn: "map fst ?ts1 = senders"
    unfolding ts1[symmetric] by (rule transfer_of_sender)
  have task: "?task = recv_task_of self0 dst_tile src_tiles ixs (plan ! j) receiver"
    using di f1(1) a1 by (simp add: recv_task_of_def device_id_of_def dict_get_Inr)
  have g2: "task_spec ?self2 = task_spec self0" "collective_group ?self2 = collective_group self0"
    "dst_mesh ?self2 = dst_mesh self0"
    using f1 by simp_all
  note ih = Cons.IH[OF rest g2]
  have en: "enumerate j (receiver # receivers) = (j, receiver) # enumerate (Suc j) receivers"
    by simp
  have se2: "send_entries ?self2 w = send_entries self1 w" for w
    by (simp add: send_entries_def)
  have rt2: "recv_tasks ?self2 w =
      recv_tasks self w @ tasks_received_by ?g w [?R (j, receiver)]" for w
  proof -
    have "recv_tasks ?self2 w = (if w = rw then tasks @ [?task] else recv_tasks self1 w)"
      by (simp add: recv_tasks_def map_of_dict_set)
    moreover have "recv_tasks self1 rw = tasks"
      using tk by (simp add: recv_tasks_def dict_get_Inr)
    moreover have "recv_tasks self1 w = recv_tasks self w"
      using f1(4) by (simp add: recv_tasks_def)
    ultimately show ?thesis
      using rw'' task by (auto simp: tasks_received_by_def)
  qed
  have re2: "recv_entries ?self2 w = recv_entries self w @ received_by ?g w ?ts1" for w
  proof -
    have "recv_entries ?self2 w =
        (if w = rw then concat (map tile_specs (tasks @ [?task])) else recv_entries self1 w)"
      by (simp add: recv_entries_def map_of_dict_set)
    moreover have "recv_entries self1 rw = concat (map tile_specs tasks)"
      using tk by (simp add: recv_entries_def dict_get_Inr)
    moreover have "recv_entries self1 w = recv_entries self w"
      using f1(4) by (simp add: recv_entries_def)
    moreover have "received_by ?g w ?ts1 = (if w = rw then rts else [])"
      using received_by_same_receiver[of ?ts1 receiver ?g w]
        transfer_of_receiver[of self0 src_tiles ixs receiver] rw'' a1
      by (auto simp: transfers_of_receiver_def)
    ultimately show ?thesis
      by auto
  qed
  have "\<forall>w. send_entries self' w =
      send_entries self w @ sent_by ?g w (concat (map ?T (enumerate j (receiver # receivers))))"
    using ih se2 s1 unfolding en by (simp add: sent_by_append)
  moreover have "\<forall>w. recv_entries self' w =
      recv_entries self w @
      received_by ?g w (concat (map ?T (enumerate j (receiver # receivers))))"
    using ih re2 unfolding en by (simp add: received_by_append)
  moreover have "\<forall>w. recv_tasks self' w =
      recv_tasks self w @ tasks_received_by ?g w (map ?R (enumerate j (receiver # receivers)))"
    using ih rt2 tasks_received_by_append[of ?g _ "[?R (j, receiver)]"
        "map ?R (enumerate (Suc j) receivers)"]
    unfolding en by simp
  moreover have "\<forall>t\<in>set (concat (map ?T (enumerate j (receiver # receivers)))).
      transfer_paired ?g t"
    using ih p1 unfolding en by auto
  moreover have "sender_uuid_plan self' =
      sender_uuid_plan self @ map fst (concat (map ?T (enumerate j (receiver # receivers))))"
    using ih u1 sn unfolding en by simp
  moreover have "receiver_uuid_plan self' = receiver_uuid_plan self @ receiver # receivers"
    using ih f1(5) by simp
  ultimately show ?case
    using ih by blast
qed


lemma recv_tasks_of_tile_receivers:
  "map fst (map (\<lambda>(j, receiver). (receiver, f j receiver)) (enumerate j receivers)) = receivers"
  by (induction receivers arbitrary: j) simp_all

lemma strategy_Inr: "fst (strategy spec) = Inr y \<longleftrightarrow> strategy_field spec = Some y"
  by (simp add: strategy_def truthy_strategy_def split: option.splits)

lemma tiles_loop_transfers:
  assumes "tiles_loop i m self = Inr self'"
    and "task_spec self = task_spec self0" "collective_group self = collective_group self0"
      "dst_mesh self = dst_mesh self0"
  shows "task_spec self' = task_spec self0 \<and> collective_group self' = collective_group self0 \<and>
     dst_mesh self' = dst_mesh self0 \<and>
     (\<forall>t\<in>set (concat (map (\<lambda>(i, x). transfers_of_tile self0 x (plans_of (task_spec self0) ! i))
                 (enumerate i m))).
        transfer_paired (collective_group self0) t) \<and>
     (\<forall>w. send_entries self' w =
        send_entries self w @
        sent_by (collective_group self0) w
          (concat (map (\<lambda>(i, x). transfers_of_tile self0 x (plans_of (task_spec self0) ! i))
                   (enumerate i m)))) \<and>
     (\<forall>w. recv_entries self' w =
        recv_entries self w @
        received_by (collective_group self0) w
          (concat (map (\<lambda>(i, x). transfers_of_tile self0 x (plans_of (task_spec self0) ! i))
                   (enumerate i m)))) \<and>
     (\<forall>w. recv_tasks self' w =
        recv_tasks self w @
        tasks_received_by (collective_group self0) w
          (concat (map (\<lambda>(i, x). recv_tasks_of_tile self0 x (plans_of (task_spec self0) ! i))
                   (enumerate i m)))) \<and>
     sender_uuid_plan self' =
       sender_uuid_plan self @
       map fst (concat (map (\<lambda>(i, x).
                          transfers_of_tile self0 x (plans_of (task_spec self0) ! i))
                        (enumerate i m))) \<and>
     receiver_uuid_plan self' =
       receiver_uuid_plan self @
       map fst (concat (map (\<lambda>(i, x).
                          recv_tasks_of_tile self0 x (plans_of (task_spec self0) ! i))
                        (enumerate i m)))"
  using assms
proof (induction m arbitrary: i self)
  case Nil
  then show ?case
    by (simp add: sent_by_Nil received_by_Nil tasks_received_by_def)
next
  case (Cons x m)
  let ?g = "collective_group self0"
  let ?plans = "plans_of (task_spec self0)"
  let ?T = "\<lambda>(i, x). transfers_of_tile self0 x (?plans ! i)"
  let ?R = "\<lambda>(i, x). recv_tasks_of_tile self0 x (?plans ! i)"
  obtain dst_tile src_tiles ixs where x: "x = (dst_tile, src_tiles, ixs)"
    by (cases x)
  from Cons.prems(1) x obtain plan self1 where
    pl: "ebind (fst (strategy (task_spec self))) (\<lambda>y. list_get (per_spec_plans y) i) = Inr plan"
    and rl: "replicas_loop dst_tile src_tiles ixs plan 0 (replica_device_strs dst_tile) self =
        Inr self1"
    and rest: "tiles_loop (Suc i) m self1 = Inr self'"
    by (auto split: sum.splits)
  from pl obtain y where "fst (strategy (task_spec self)) = Inr y"
    and "list_get (per_spec_plans y) i = Inr plan"
    by (auto simp: ebind_def split: sum.splits)
  then have plan: "plan = ?plans ! i"
    using Cons.prems(2)
    by (auto simp: strategy_Inr plans_of_def list_get_def split: if_splits)
  note rl' = replicas_loop_transfers[OF rl Cons.prems(2,3,4)]
  have t1: "concat (map (\<lambda>(j, receiver).
                     transfers_of_receiver self0 src_tiles ixs (plan ! j) receiver)
                   (enumerate 0 (replica_device_strs dst_tile))) = ?T (i, x)"
    unfolding x plan by (simp add: transfers_of_tile_def)
  have r1: "map (\<lambda>(j, receiver).
                  (receiver, recv_task_of self0 dst_tile src_tiles ixs (plan ! j) receiver))
             (enumerate 0 (replica_device_strs dst_tile)) = ?R (i, x)"
    unfolding x plan by (simp add: recv_tasks_of_tile_def)
  have rc: "replica_device_strs dst_tile = map fst (?R (i, x))"
    unfolding r1[symmetric] by (simp only: recv_tasks_of_tile_receivers)
  from rl'[unfolded t1 r1] have f1: "task_spec self1 = task_spec self0"
    "collective_group self1 = collective_group self0" "dst_mesh self1 = dst_mesh self0"
    and p1: "\<forall>t\<in>set (?T (i, x)). transfer_paired ?g t"
    and s1: "\<forall>w. send_entries self1 w = send_entries self w @ sent_by ?g w (?T (i, x))"
    and e1: "\<forall>w. recv_entries self1 w = recv_entries self w @ received_by ?g w (?T (i, x))"
    and k1: "\<forall>w. recv_tasks self1 w =
        recv_tasks self w @ tasks_received_by ?g w (?R (i, x))"
    and u1: "sender_uuid_plan self1 = sender_uuid_plan self @ map fst (?T (i, x))"
    and v1: "receiver_uuid_plan self1 = receiver_uuid_plan self @ replica_device_strs dst_tile"
    by blast+
  note ih = Cons.IH[OF rest f1]
  have en: "enumerate i (x # m) = (i, x) # enumerate (Suc i) m"
    by simp
  have "\<forall>w. send_entries self' w =
      send_entries self w @ sent_by ?g w (concat (map ?T (enumerate i (x # m))))"
    using ih s1 unfolding en by (simp add: sent_by_append)
  moreover have "\<forall>w. recv_entries self' w =
      recv_entries self w @ received_by ?g w (concat (map ?T (enumerate i (x # m))))"
    using ih e1 unfolding en by (simp add: received_by_append)
  moreover have "\<forall>w. recv_tasks self' w =
      recv_tasks self w @ tasks_received_by ?g w (concat (map ?R (enumerate i (x # m))))"
    using ih k1 unfolding en by (simp add: tasks_received_by_append)
  moreover have "\<forall>t\<in>set (concat (map ?T (enumerate i (x # m)))). transfer_paired ?g t"
    using ih p1 unfolding en by auto
  moreover have "sender_uuid_plan self' =
      sender_uuid_plan self @ map fst (concat (map ?T (enumerate i (x # m))))"
    using ih u1 unfolding en by simp
  moreover have "receiver_uuid_plan self' =
      receiver_uuid_plan self @ map fst (concat (map ?R (enumerate i (x # m))))"
    using ih v1 rc unfolding en by simp
  ultimately show ?case
    using ih by blast
qed

lemma compile_send_recv_tasks_transfers:
  assumes "compile_send_recv_tasks self = Inr self'"
  shows "\<exists>m. dst_tile_to_src_tiles_map (task_spec self) = Inr m \<and>
     task_spec self' = task_spec self \<and> collective_group self' = collective_group self \<and>
     (\<forall>t\<in>set (transfers_of self m (plans_of (task_spec self))).
        transfer_paired (collective_group self) t) \<and>
     (\<forall>w. send_entries self' w =
        send_entries self w @
        sent_by (collective_group self) w (transfers_of self m (plans_of (task_spec self)))) \<and>
     (\<forall>w. recv_entries self' w =
        recv_entries self w @
        received_by (collective_group self) w
          (transfers_of self m (plans_of (task_spec self)))) \<and>
     (\<forall>w. recv_tasks self' w =
        recv_tasks self w @
        tasks_received_by (collective_group self) w
          (recv_tasks_of self m (plans_of (task_spec self)))) \<and>
     sender_uuid_plan self' =
       sender_uuid_plan self @ map fst (transfers_of self m (plans_of (task_spec self))) \<and>
     receiver_uuid_plan self' =
       receiver_uuid_plan self @ map fst (recv_tasks_of self m (plans_of (task_spec self)))"
proof -
  from assms obtain m where m: "dst_tile_to_src_tiles_map (task_spec self) = Inr m"
    and t: "tiles_loop 0 m self = Inr self'"
    by (auto simp: compile_send_recv_tasks_def ebind_def split: sum.splits)
  from tiles_loop_transfers[OF t refl refl refl] m show ?thesis
    unfolding transfers_of_def recv_tasks_of_def by blast
qed


lemma filter_nth_position:
  assumes "p < length ts" "P (ts ! p)"
  shows "filter P ts ! length (filter P (take p ts)) = ts ! p"
    and "length (filter P (take p ts)) < length (filter P ts)"
proof -
  have "ts = take p ts @ ts ! p # drop (Suc p) ts"
    using assms(1) by (simp add: id_take_nth_drop)
  then have "filter P ts = filter P (take p ts) @ ts ! p # filter P (drop (Suc p) ts)"
    using assms(2) by (metis filter.simps(2) filter_append)
  then show "filter P ts ! length (filter P (take p ts)) = ts ! p"
    and "length (filter P (take p ts)) < length (filter P ts)"
    by simp_all
qed

lemma filter_position_mono:
  assumes "p < q" "q \<le> length ts" "P (ts ! p)"
  shows "length (filter P (take p ts)) < length (filter P (take q ts))"
proof -
  have "p < length (take q ts)" "P (take q ts ! p)"
    using assms by simp_all
  from filter_nth_position(2)[of p "take q ts" P, OF this] show ?thesis
    using assms(1) by (simp add: min_def)
qed

lemma sent_by_filter:
  "sent_by g w ts = map send_entry_of (filter (\<lambda>t. sender_worker g t = Some w) ts)"
  by (induction ts) (auto simp: sent_by_def send_entry_of_def sender_worker_def)

lemma received_by_filter:
  "received_by g w ts = map recv_entry_of (filter (\<lambda>t. receiver_worker g t = Some w) ts)"
  by (induction ts) (auto simp: received_by_def recv_entry_of_def receiver_worker_def)

lemma sent_by_position:
  assumes "p < length ts" "sender_worker g (ts ! p) = Some w"
  shows "(old @ sent_by g w ts) ! (length old + send_position g ts p) = send_entry_of (ts ! p)"
proof -
  let ?P = "\<lambda>t. sender_worker g t = Some w"
  have "?P (ts ! p)"
    using assms(2) .
  from filter_nth_position[of p ts ?P, OF assms(1) this]
  show ?thesis
    unfolding sent_by_filter send_position_def assms(2) by simp
qed

lemma received_by_position:
  assumes "p < length ts" "receiver_worker g (ts ! p) = Some w"
  shows "(old @ received_by g w ts) ! (length old + recv_position g ts p) =
     recv_entry_of (ts ! p)"
proof -
  let ?P = "\<lambda>t. receiver_worker g t = Some w"
  have "?P (ts ! p)"
    using assms(2) .
  from filter_nth_position[of p ts ?P, OF assms(1) this]
  show ?thesis
    unfolding received_by_filter recv_position_def assms(2) by simp
qed

lemma send_position_mono:
  assumes "p < q" "q < length ts" "sender_worker g (ts ! p) = sender_worker g (ts ! q)"
  shows "send_position g ts p < send_position g ts q"
proof -
  let ?P = "\<lambda>t. sender_worker g t = sender_worker g (ts ! q)"
  have "length (filter ?P (take p ts)) < length (filter ?P (take q ts))"
    using assms by (intro filter_position_mono) simp_all
  then show ?thesis
    unfolding send_position_def assms(3) .
qed

lemma recv_position_mono:
  assumes "p < q" "q < length ts" "receiver_worker g (ts ! p) = receiver_worker g (ts ! q)"
  shows "recv_position g ts p < recv_position g ts q"
proof -
  let ?P = "\<lambda>t. receiver_worker g t = receiver_worker g (ts ! q)"
  have "length (filter ?P (take p ts)) < length (filter ?P (take q ts))"
    using assms by (intro filter_position_mono) simp_all
  then show ?thesis
    unfolding recv_position_def assms(3) .
qed


lemma keeps_lists_refl: "keeps_lists self self"
  by (simp add: keeps_lists_def)

lemma map_of_dict_set_mono: "map_of d k' \<noteq> None \<Longrightarrow> map_of (dict_set d k v) k' \<noteq> None"
  by (simp add: map_of_dict_set)

lemma plan_senders_total:
  "j < length plan \<Longrightarrow> \<forall>k\<in>set ks. k < length (plan ! j) \<Longrightarrow>
     plan_senders plan j ks = Inr (map (\<lambda>k. plan ! j ! k) ks)"
  by (induction ks) (simp_all add: ebind_def list_get_def)

lemma senders_loop_total:
  assumes "keeps_lists self0 self"
    and "\<forall>x\<in>set (enumerate k senders). sender_ready self0 ixs receiver x"
    and "k + length senders \<le> length src_tiles"
  shows "\<exists>self' acc'.
     senders_loop receiver rr rg src_tiles ixs k senders (self, acc) = Inr (self', acc') \<and>
     keeps_lists self0 self'"
  using assms
proof (induction senders arbitrary: k self acc)
  case Nil
  then show ?case
    by simp
next
  case (Cons sender senders)
  let ?g = "collective_group self0"
  from Cons.prems(1) have st: "task_spec self = task_spec self0"
    "collective_group self = collective_group self0" "dst_mesh self = dst_mesh self0"
    by (simp_all add: keeps_lists_def)
  from Cons.prems(2) have "sender_ready self0 ixs receiver (k, sender)"
    by simp
  then obtain sw rk ix where kx: "k < length ixs"
    and rk: "map_of (device_str_to_rank_map ?g) sender = Some rk"
    and sw: "map_of (device_str_to_mesh_worker_map ?g) sender = Some sw"
    and l0: "map_of (sender_tasks self0) sw \<noteq> None"
    and ix: "indices_in_dst_post_allgather self0 (ixs ! k) receiver = Inr ix"
    by (auto simp: sender_ready_def split: option.splits sum.splits)
  obtain sr sg where rk': "rk = (sr, sg)"
    by (cases rk)
  from l0 Cons.prems(1) obtain entries where en: "map_of (sender_tasks self) sw = Some entries"
    by (auto simp: keeps_lists_def)
  have ks: "k < length src_tiles"
    using Cons.prems(3) by simp
  have ix': "indices_in_dst_post_allgather self (ixs ! k) receiver = Inr ix"
    using ix indices_in_dst_post_allgather_cong[OF st] by simp
  let ?self1 = "self\<lparr>sender_tasks :=
                     dict_set (sender_tasks self) sw
                       (entries @ [\<lparr>spec_offset = offset (src_tiles ! k), rank = rr,
                                     gpu_idx = rg\<rparr>]),
                   sender_uuid_plan := sender_uuid_plan self @ [sender]\<rparr>"
  let ?acc1 = "acc @ [\<lparr>spec_offset = ix, rank = sr, gpu_idx = sg\<rparr>]"
  have step: "senders_loop receiver rr rg src_tiles ixs k (sender # senders) (self, acc) =
      senders_loop receiver rr rg src_tiles ixs (Suc k) senders (?self1, ?acc1)"
    using kx rk rk' sw en ks ix' st
    by (simp add: dict_get_def list_get_def ebind_def)
  have k1: "keeps_lists self0 ?self1"
    using Cons.prems(1) by (simp add: keeps_lists_def map_of_dict_set)
  have r1: "\<forall>x\<in>set (enumerate (Suc k) senders). sender_ready self0 ixs receiver x"
    using Cons.prems(2) by simp
  have n1: "Suc k + length senders \<le> length src_tiles"
    using Cons.prems(3) by simp
  from Cons.IH[OF k1 r1 n1, of ?acc1] show ?case
    unfolding step .
qed

lemma replicas_loop_total:
  assumes "keeps_lists self0 self"
    and "\<forall>x\<in>set (enumerate j receivers). receiver_ready self0 src_tiles ixs plan x"
  shows "\<exists>self'. replicas_loop dst_tile src_tiles ixs plan j receivers self = Inr self' \<and>
     keeps_lists self0 self'"
  using assms
proof (induction receivers arbitrary: j self)
  case Nil
  then show ?case
    by simp
next
  case (Cons receiver receivers)
  let ?g = "collective_group self0"
  let ?n = "length src_tiles"
  let ?senders = "take ?n (plan ! j)"
  from Cons.prems(1) have st: "task_spec self = task_spec self0"
    "collective_group self = collective_group self0" "dst_mesh self = dst_mesh self0"
    by (simp_all add: keeps_lists_def)
  from Cons.prems(2) have "receiver_ready self0 src_tiles ixs plan (j, receiver)"
    by simp
  then obtain did rk rw where di: "map_of (device_str_to_device_id_map ?g) receiver = Some did"
    and rk: "map_of (device_str_to_rank_map ?g) receiver = Some rk"
    and rw: "map_of (device_str_to_mesh_worker_map ?g) receiver = Some rw"
    and l0: "map_of (receiver_tasks self0) rw \<noteq> None"
    and jp: "j < length plan" and np: "?n \<le> length (plan ! j)"
    and sr: "\<forall>x\<in>set (enumerate 0 ?senders). sender_ready self0 ixs receiver x"
    by (auto simp: receiver_ready_def split: option.splits)
  obtain rr rg where rk': "rk = (rr, rg)"
    by (cases rk)
  have ps: "plan_senders plan j [0..<?n] = Inr ?senders"
    using plan_senders_total[OF jp, of "[0..<?n]"] np map_nth_upt_take[OF np] by simp
  let ?self0 = "self\<lparr>receiver_uuid_plan := receiver_uuid_plan self @ [receiver]\<rparr>"
  have k0: "keeps_lists self0 ?self0"
    using Cons.prems(1) by (simp add: keeps_lists_def)
  have "0 + length ?senders \<le> length src_tiles"
    by simp
  from senders_loop_total[OF k0 sr this, of rr rg "[]"] obtain self1 rts where
    sl: "senders_loop receiver rr rg src_tiles ixs 0 ?senders (?self0, []) = Inr (self1, rts)"
    and k1: "keeps_lists self0 self1"
    by blast
  from l0 k1 obtain tasks where tk: "map_of (receiver_tasks self1) rw = Some tasks"
    by (auto simp: keeps_lists_def)
  let ?self2 = "self1\<lparr>receiver_tasks :=
                      dict_set (receiver_tasks self1) rw
                        (tasks @ [\<lparr>device_id = did, recv_shape = tile_shape dst_tile,
                                    recv_dtype = dtype (aval (src (task_spec self1))),
                                    tile_specs = rts\<rparr>])\<rparr>"
  have step: "replicas_loop dst_tile src_tiles ixs plan j (receiver # receivers) self =
      replicas_loop dst_tile src_tiles ixs plan (Suc j) receivers ?self2"
    using di rk rk' rw ps sl tk st by (simp add: dict_get_def)
  have k2: "keeps_lists self0 ?self2"
    using k1 by (simp add: keeps_lists_def map_of_dict_set)
  have r2: "\<forall>x\<in>set (enumerate (Suc j) receivers). receiver_ready self0 src_tiles ixs plan x"
    using Cons.prems(2) by simp
  from Cons.IH[OF k2 r2] show ?case
    unfolding step .
qed

lemma tiles_loop_total:
  assumes "keeps_lists self0 self"
    and "\<forall>x\<in>set (enumerate i m). tile_ready self0 (plans_of (task_spec self0)) x"
  shows "\<exists>self'. tiles_loop i m self = Inr self' \<and> keeps_lists self0 self'"
  using assms
proof (induction m arbitrary: i self)
  case Nil
  then show ?case
    by simp
next
  case (Cons x m)
  let ?plans = "plans_of (task_spec self0)"
  obtain dst_tile src_tiles ixs where x: "x = (dst_tile, src_tiles, ixs)"
    by (cases x)
  from Cons.prems(1) have st: "task_spec self = task_spec self0"
    by (simp add: keeps_lists_def)
  from Cons.prems(2) x have ip: "i < length ?plans"
    and rr: "\<forall>x\<in>set (enumerate 0 (replica_device_strs dst_tile)).
        receiver_ready self0 src_tiles ixs (?plans ! i) x"
    by (simp_all add: tile_ready_def)
  from ip obtain y where y: "strategy_field (task_spec self0) = Some y"
    and py: "?plans = per_spec_plans y"
    by (auto simp: plans_of_def split: option.splits)
  have pl: "ebind (fst (strategy (task_spec self))) (\<lambda>y. list_get (per_spec_plans y) i) =
      Inr (?plans ! i)"
    using y ip st unfolding py
    by (simp add: strategy_def truthy_strategy_def ebind_def list_get_def)
  from replicas_loop_total[OF Cons.prems(1) rr] obtain self1 where
    rl: "replicas_loop dst_tile src_tiles ixs (?plans ! i) 0 (replica_device_strs dst_tile) self =
        Inr self1"
    and k1: "keeps_lists self0 self1"
    by blast
  have step: "tiles_loop i (x # m) self = tiles_loop (Suc i) m self1"
    unfolding x using pl rl by simp
  have r1: "\<forall>x\<in>set (enumerate (Suc i) m). tile_ready self0 ?plans x"
    using Cons.prems(2) by simp
  from Cons.IH[OF k1 r1] show ?case
    unfolding step .
qed

lemma compile_send_recv_tasks_total:
  assumes "task_ready self"
  shows "\<exists>self'. compile_send_recv_tasks self = Inr self'"
proof -
  from assms obtain m where m: "dst_tile_to_src_tiles_map (task_spec self) = Inr m"
    and r: "\<forall>x\<in>set (enumerate 0 m). tile_ready self (plans_of (task_spec self)) x"
    by (auto simp: task_ready_def split: sum.splits)
  from tiles_loop_total[OF keeps_lists_refl r] m show ?thesis
    by (auto simp: compile_send_recv_tasks_def ebind_def)
qed



text \<open>
  C5. The transfers of a task are fixed by its inputs: for every destination tile of the
  map, every replica of the tile and every source tile slice, in this order, the sender
  that the strategy names at this place sends the slice to the replica
  (\<open>transfers_of\<close>). When \<open>compile_send_recv_tasks\<close> (the source's
  \<^verbatim>\<open>_compile_send_recv_tasks\<close>) returns, every device of a transfer has a worker and a
  rank, the entry of the sender carries the rank and the device index of the receiver and
  the tile spec of the receiver carries those of the sender; the entries added to the
  list of a sender worker are the sender entries of the transfers sent from its devices,
  in the order of the transfers, and the tile specs added to the receive tasks of a
  receiver worker are the tile specs of the transfers received by its devices, in the
  same order; the receive tasks carry the device id of the replica, and the two uuid
  plans list the senders and the receivers. So the transfer at place \<open>p\<close> has one entry on
  each side: among the new entries of its sender worker at the number of earlier
  transfers from that worker, among the new tile specs of its receiver worker at the
  number of earlier transfers to that worker; both numbers grow with \<open>p\<close>, so two
  transfers between the same two workers stand in the same order on both sides. The
  function returns whenever the strategy has a plan for every place and every device and
  worker has its entries in the maps of the group and of the task (\<open>task_ready\<close>).
\<close>

theorem compile_send_recv_tasks_paired:
  "(task_ready self \<longrightarrow> (\<exists>self'. compile_send_recv_tasks self = Inr self')) \<and>
   (compile_send_recv_tasks self = Inr self'' \<longrightarrow>
      (\<exists>m ts rts.
         dst_tile_to_src_tiles_map (task_spec self) = Inr m \<and>
         ts = transfers_of self m (plans_of (task_spec self)) \<and>
         rts = recv_tasks_of self m (plans_of (task_spec self)) \<and>
         (\<forall>t\<in>set ts. transfer_paired (collective_group self) t) \<and>
         (\<forall>w. send_entries self'' w =
                send_entries self w @ sent_by (collective_group self) w ts) \<and>
         (\<forall>w. recv_entries self'' w =
                recv_entries self w @ received_by (collective_group self) w ts) \<and>
         (\<forall>w. recv_tasks self'' w =
                recv_tasks self w @ tasks_received_by (collective_group self) w rts) \<and>
         sender_uuid_plan self'' = sender_uuid_plan self @ map fst ts \<and>
         receiver_uuid_plan self'' = receiver_uuid_plan self @ map fst rts \<and>
         (\<forall>p<length ts. \<forall>w.
            sender_worker (collective_group self) (ts ! p) = Some w \<longrightarrow>
            send_entries self'' w !
              (length (send_entries self w) + send_position (collective_group self) ts p) =
            send_entry_of (ts ! p)) \<and>
         (\<forall>p<length ts. \<forall>w.
            receiver_worker (collective_group self) (ts ! p) = Some w \<longrightarrow>
            recv_entries self'' w !
              (length (recv_entries self w) + recv_position (collective_group self) ts p) =
            recv_entry_of (ts ! p)) \<and>
         (\<forall>q<length ts. \<forall>p<q.
            (sender_worker (collective_group self) (ts ! p) =
               sender_worker (collective_group self) (ts ! q) \<longrightarrow>
             send_position (collective_group self) ts p <
               send_position (collective_group self) ts q) \<and>
            (receiver_worker (collective_group self) (ts ! p) =
               receiver_worker (collective_group self) (ts ! q) \<longrightarrow>
             recv_position (collective_group self) ts p <
               recv_position (collective_group self) ts q))))"
proof (intro conjI impI)
  assume "task_ready self"
  then show "\<exists>self'. compile_send_recv_tasks self = Inr self'"
    by (rule compile_send_recv_tasks_total)
next
  assume run: "compile_send_recv_tasks self = Inr self''"
  let ?g = "collective_group self"
  from compile_send_recv_tasks_transfers[OF run] obtain m where
    m: "dst_tile_to_src_tiles_map (task_spec self) = Inr m"
    and p: "\<forall>t\<in>set (transfers_of self m (plans_of (task_spec self))). transfer_paired ?g t"
    and s: "\<forall>w. send_entries self'' w =
        send_entries self w @ sent_by ?g w (transfers_of self m (plans_of (task_spec self)))"
    and r: "\<forall>w. recv_entries self'' w =
        recv_entries self w @ received_by ?g w (transfers_of self m (plans_of (task_spec self)))"
    and k: "\<forall>w. recv_tasks self'' w =
        recv_tasks self w @
        tasks_received_by ?g w (recv_tasks_of self m (plans_of (task_spec self)))"
    and u: "sender_uuid_plan self'' =
        sender_uuid_plan self @ map fst (transfers_of self m (plans_of (task_spec self)))"
    and v: "receiver_uuid_plan self'' =
        receiver_uuid_plan self @ map fst (recv_tasks_of self m (plans_of (task_spec self)))"
    by blast
  let ?ts = "transfers_of self m (plans_of (task_spec self))"
  have sp: "\<forall>p<length ?ts. \<forall>w. sender_worker ?g (?ts ! p) = Some w \<longrightarrow>
      send_entries self'' w ! (length (send_entries self w) + send_position ?g ?ts p) =
      send_entry_of (?ts ! p)"
    using s sent_by_position by simp
  have rp: "\<forall>p<length ?ts. \<forall>w. receiver_worker ?g (?ts ! p) = Some w \<longrightarrow>
      recv_entries self'' w ! (length (recv_entries self w) + recv_position ?g ?ts p) =
      recv_entry_of (?ts ! p)"
    using r received_by_position by simp
  have mo: "\<forall>q<length ?ts. \<forall>p<q.
      (sender_worker ?g (?ts ! p) = sender_worker ?g (?ts ! q) \<longrightarrow>
       send_position ?g ?ts p < send_position ?g ?ts q) \<and>
      (receiver_worker ?g (?ts ! p) = receiver_worker ?g (?ts ! q) \<longrightarrow>
       recv_position ?g ?ts p < recv_position ?g ?ts q)"
    using send_position_mono recv_position_mono by blast
  from m p s r k u v sp rp mo
  show "\<exists>m ts rts.
         dst_tile_to_src_tiles_map (task_spec self) = Inr m \<and>
         ts = transfers_of self m (plans_of (task_spec self)) \<and>
         rts = recv_tasks_of self m (plans_of (task_spec self)) \<and>
         (\<forall>t\<in>set ts. transfer_paired (collective_group self) t) \<and>
         (\<forall>w. send_entries self'' w =
                send_entries self w @ sent_by (collective_group self) w ts) \<and>
         (\<forall>w. recv_entries self'' w =
                recv_entries self w @ received_by (collective_group self) w ts) \<and>
         (\<forall>w. recv_tasks self'' w =
                recv_tasks self w @ tasks_received_by (collective_group self) w rts) \<and>
         sender_uuid_plan self'' = sender_uuid_plan self @ map fst ts \<and>
         receiver_uuid_plan self'' = receiver_uuid_plan self @ map fst rts \<and>
         (\<forall>p<length ts. \<forall>w.
            sender_worker (collective_group self) (ts ! p) = Some w \<longrightarrow>
            send_entries self'' w !
              (length (send_entries self w) + send_position (collective_group self) ts p) =
            send_entry_of (ts ! p)) \<and>
         (\<forall>p<length ts. \<forall>w.
            receiver_worker (collective_group self) (ts ! p) = Some w \<longrightarrow>
            recv_entries self'' w !
              (length (recv_entries self w) + recv_position (collective_group self) ts p) =
            recv_entry_of (ts ! p)) \<and>
         (\<forall>q<length ts. \<forall>p<q.
            (sender_worker (collective_group self) (ts ! p) =
               sender_worker (collective_group self) (ts ! q) \<longrightarrow>
             send_position (collective_group self) ts p <
               send_position (collective_group self) ts q) \<and>
            (receiver_worker (collective_group self) (ts ! p) =
               receiver_worker (collective_group self) (ts ! q) \<longrightarrow>
             recv_position (collective_group self) ts p <
               recv_position (collective_group self) ts q))"
    by (intro exI[of _ m] exI[of _ ?ts]
        exI[of _ "recv_tasks_of self m (plans_of (task_spec self))"] conjI refl)
qed


theorem compile_send_recv_tasks_paired_witness:
  "CollectiveGroup_init (device_strs mesh_2x2 @ device_strs mesh_1x2) mesh_2x2 mesh_1x2 =
     Inr group_2x2_1x2 \<and>
   task_ready task_4x4 \<and>
   compile_send_recv_tasks task_4x4 = Inr task_4x4_compiled \<and>
   (\<exists>m. dst_tile_to_src_tiles_map (task_spec task_4x4) = Inr m \<and>
      transfers_of task_4x4 m (plans_of (task_spec task_4x4)) = transfers_4x4) \<and>
   list_all (transfer_paired group_2x2_1x2) transfers_4x4 \<and>
   (\<forall>w. send_entries task_4x4_compiled w = sent_by group_2x2_1x2 w transfers_4x4) \<and>
   (\<forall>w. recv_entries task_4x4_compiled w = received_by group_2x2_1x2 w transfers_4x4) \<and>
   send_entries task_4x4_compiled (Worker 2) = [send_half_to 0, send_half_to 1] \<and>
   send_entries task_4x4_compiled (Worker 3) = [send_half_to 0, send_half_to 1] \<and>
   recv_entries task_4x4_compiled (Worker 5) =
     [recv_upper_from 0, recv_lower_from 0, recv_upper_from 1, recv_lower_from 1] \<and>
   send_position group_2x2_1x2 transfers_4x4 0 = 0 \<and>
   send_position group_2x2_1x2 transfers_4x4 2 = 1 \<and>
   recv_position group_2x2_1x2 transfers_4x4 0 = 0 \<and>
   recv_position group_2x2_1x2 transfers_4x4 2 = 2"
proof -
  have g0: "CollectiveGroup_init (device_strs mesh_2x2 @ device_strs mesh_1x2) mesh_2x2 mesh_1x2 =
      Inr group_2x2_1x2"
    by code_simp
  have ready: "task_ready task_4x4"
    by code_simp
  have run: "compile_send_recv_tasks task_4x4 = Inr task_4x4_compiled"
    by code_simp
  have tr: "(case dst_tile_to_src_tiles_map (task_spec task_4x4) of
        Inl e \<Rightarrow> []
      | Inr m \<Rightarrow> transfers_of task_4x4 m (plans_of (task_spec task_4x4))) = transfers_4x4"
    by code_simp
  have e: "send_entries task_4x4_compiled (Worker 2) = [send_half_to 0, send_half_to 1]"
    "send_entries task_4x4_compiled (Worker 3) = [send_half_to 0, send_half_to 1]"
    "recv_entries task_4x4_compiled (Worker 5) =
       [recv_upper_from 0, recv_lower_from 0, recv_upper_from 1, recv_lower_from 1]"
    by (simp_all add: task_4x4_compiled_def send_entries_def recv_entries_def)
  have pos: "send_position group_2x2_1x2 transfers_4x4 0 = 0"
    "send_position group_2x2_1x2 transfers_4x4 2 = 1"
    "recv_position group_2x2_1x2 transfers_4x4 0 = 0"
    "recv_position group_2x2_1x2 transfers_4x4 2 = 2"
    by code_simp+
  have z: "send_entries task_4x4 w = []" "recv_entries task_4x4 w = []" for w
    by (simp_all add: task_4x4_def send_entries_def recv_entries_def)
  have g: "collective_group task_4x4 = group_2x2_1x2"
    by (simp add: task_4x4_def)
  note inst = compile_send_recv_tasks_paired[where self = task_4x4
      and self'' = task_4x4_compiled]
  from inst ready have "\<exists>self'. compile_send_recv_tasks task_4x4 = Inr self'"
    by (rule conjunct1[THEN mp])
  from inst[THEN conjunct2, THEN mp, OF run] obtain m where
    m: "dst_tile_to_src_tiles_map (task_spec task_4x4) = Inr m"
    and p: "\<forall>t\<in>set (transfers_of task_4x4 m (plans_of (task_spec task_4x4))).
        transfer_paired (collective_group task_4x4) t"
    and s: "\<forall>w. send_entries task_4x4_compiled w =
        send_entries task_4x4 w @
        sent_by (collective_group task_4x4) w
          (transfers_of task_4x4 m (plans_of (task_spec task_4x4)))"
    and r: "\<forall>w. recv_entries task_4x4_compiled w =
        recv_entries task_4x4 w @
        received_by (collective_group task_4x4) w
          (transfers_of task_4x4 m (plans_of (task_spec task_4x4)))"
    by blast
  have t: "transfers_of task_4x4 m (plans_of (task_spec task_4x4)) = transfers_4x4"
    using tr m by simp
  from p s r have "list_all (transfer_paired group_2x2_1x2) transfers_4x4 \<and>
   (\<forall>w. send_entries task_4x4_compiled w = sent_by group_2x2_1x2 w transfers_4x4) \<and>
   (\<forall>w. recv_entries task_4x4_compiled w = received_by group_2x2_1x2 w transfers_4x4)"
    unfolding t g z by (simp add: list_all_iff)
  with g0 ready run m t e pos show ?thesis
    by blast
qed

end
